theory Spec2Isabelle
  imports
    Complex_Main
    "HOL-Library.Char_ord"
    "HOL-Library.List_Lexorder"
    "HOL-Library.Product_Lexorder"
    "HOL-Library.Sublist"
begin

section \<open>Python values used by the renderer\<close>

text \<open>
  Strings are byte strings; with \<open>Char_ord\<close> and \<open>List_Lexorder\<close> the order on
  \<^typ>\<open>string\<close> is the lexicographic order by character code that Python's \<open>str\<close>
  comparison and \<open>sorted\<close> use, \<open>Product_Lexorder\<close> orders tuples as Python does, and
  \<open>List_Lexorder\<close> orders the integer lists returned by \<open>cidr_sort\<close>.
  Every exception the modelled code can raise is a value of \<open>error\<close>.
\<close>

datatype error = IndexError | TypeError | AttributeError | ValueError

text \<open>Comparison of two results of \<open>level\<close>: in Python 3 an order comparison with
  \<open>None\<close> on either side raises \<open>TypeError\<close>.\<close>

definition py_lt :: "nat option \<Rightarrow> nat option \<Rightarrow> error + bool" where
  "py_lt a b =
     (case a of None \<Rightarrow> Inl TypeError
      | Some x \<Rightarrow> (case b of None \<Rightarrow> Inl TypeError | Some y \<Rightarrow> Inr (x < y)))"

definition py_gt :: "nat option \<Rightarrow> nat option \<Rightarrow> error + bool" where
  "py_gt a b =
     (case a of None \<Rightarrow> Inl TypeError
      | Some x \<Rightarrow> (case b of None \<Rightarrow> Inl TypeError | Some y \<Rightarrow> Inr (y < x)))"

text \<open>\<open>s.split(c)\<close> for a one-character separator: never empty, one more piece than
  separators.\<close>

fun split_on :: "char \<Rightarrow> string \<Rightarrow> string list" where
  "split_on c [] = [[]]"
| "split_on c (x # xs) =
     (if x = c then [] # split_on c xs
      else (x # hd (split_on c xs)) # tl (split_on c xs))"

text \<open>\<open>sep.join(xs)\<close>.\<close>

fun join :: "string \<Rightarrow> string list \<Rightarrow> string" where
  "join sep [] = []"
| "join sep [x] = x"
| "join sep (x # y # ys) = x @ sep @ join sep (y # ys)"

text \<open>\<open>str(n)\<close> for a non-negative integer.\<close>

definition digit_char :: "nat \<Rightarrow> char" where
  "digit_char d = char_of (48 + d)"

function str_of_nat :: "nat \<Rightarrow> string" where
  "str_of_nat n =
     (if n < 10 then [digit_char n] else str_of_nat (n div 10) @ [digit_char (n mod 10)])"
  by pat_completeness auto
termination
  by (relation "measure (\<lambda>n. n)") auto

declare str_of_nat.simps [simp del]

text \<open>\<open>int(s)\<close> on the octets of a CIDR block: a non-empty run of decimal digits is
  its value; anything else is taken as \<open>ValueError\<close> (Python's \<open>int\<close> also accepts
  signs, surrounding blanks and underscores, which no CIDR block carries).\<close>

definition is_digit :: "char \<Rightarrow> bool" where
  "is_digit c = (48 \<le> (of_char c :: nat) \<and> (of_char c :: nat) \<le> 57)"

definition py_int :: "string \<Rightarrow> error + int" where
  "py_int s =
     (if s \<noteq> [] \<and> list_all is_digit s
      then Inr (foldl (\<lambda>a c. 10 * a + (int (of_char c) - 48)) 0 s)
      else Inl ValueError)"

text \<open>A dictionary whose insertion order is observed is an association list;
  \<open>d[k] = v\<close> overwrites in place or appends.\<close>

fun dict_set :: "('k \<times> 'v) list \<Rightarrow> 'k \<Rightarrow> 'v \<Rightarrow> ('k \<times> 'v) list" where
  "dict_set [] k v = [(k, v)]"
| "dict_set ((k', v') # r) k v =
     (if k' = k then (k, v) # r else (k', v') # dict_set r k v)"

text \<open>Running a fallible function over a list, left to right, stopping at the first
  exception (a list comprehension whose element expression can raise).\<close>

fun map_err :: "('a \<Rightarrow> error + 'b) \<Rightarrow> 'a list \<Rightarrow> error + 'b list" where
  "map_err f [] = Inr []"
| "map_err f (x # xs) =
     (case f x of Inl e \<Rightarrow> Inl e
      | Inr y \<Rightarrow> (case map_err f xs of Inl e \<Rightarrow> Inl e | Inr ys \<Rightarrow> Inr (y # ys)))"

section \<open>utils.py: parse_arn\<close>

record arn =
  arn_arn :: string
  arn_partition :: string
  arn_service :: string
  arn_region :: string
  arn_account :: string
  arn_resourcetype :: "string option"
  arn_resource :: string

text \<open>The dictionary literal reads \<open>elements[0..4]\<close>, so fewer than five pieces is an
  \<open>IndexError\<close>; with exactly five, \<open>elements[5]\<close> in the \<open>elif\<close> is one too.\<close>

definition parse_arn :: "string \<Rightarrow> error + arn" where
  "parse_arn a =
     (let elements = split_on (CHR '':'') a in
      if length elements < 5 then Inl IndexError
      else
        let result = \<lparr>arn_arn = elements ! 0, arn_partition = elements ! 1,
                       arn_service = elements ! 2, arn_region = elements ! 3,
                       arn_account = elements ! 4, arn_resourcetype = None,
                       arn_resource = []\<rparr> in
        if length elements = 7
        then Inr (result\<lparr>arn_resourcetype := Some (elements ! 5), arn_resource := elements ! 6\<rparr>)
        else if length elements < 6 then Inl IndexError
        else if CHR ''/'' \<notin> set (elements ! 5)
        then Inr (result\<lparr>arn_resource := elements ! 5, arn_resourcetype := None\<rparr>)
        else Inr (result\<lparr>arn_resourcetype := Some (takeWhile (\<lambda>c. c \<noteq> CHR ''/'') (elements ! 5)),
                           arn_resource := drop 1 (dropWhile (\<lambda>c. c \<noteq> CHR ''/'') (elements ! 5))\<rparr>))"

section \<open>service.py: resources\<close>

text \<open>
  A resource is an instance of \<open>ServiceInstance\<close> or of one of its subclasses. The class
  decides \<open>cost_per_month\<close> and which extra attributes exist; \<open>pyclass\<close> names the class
  and carries what those accessors read: the \<open>instance_type\<close> field of \<open>EC2Instance\<close>
  and \<open>RdsInstance\<close>, the public address of a \<open>NetworkInterface\<close>
  (\<open>details.get("Association", {}).get("PublicIp")\<close>), and for a \<open>Subnet\<close> its
  \<open>CidrBlock\<close> and \<open>MapPublicIpOnLaunch\<close>. The provider's \<open>details\<close> dictionary is
  opaque otherwise: the display strings \<open>label\<close> and \<open>name\<close> that the accessors derive
  from it are fields of the record.
\<close>

datatype pyclass =
    ServiceInstance
  | AutoServiceGroup
  | EC2Instance string
  | EksCluster
  | HostedZone
  | LambdaFunction
  | LoadBalancer
  | NatGateway
  | NetworkInterface "string option"
  | RdsInstance string
  | SecurityGroup
  | Subnet string bool
  | TargetGroup
  | VpcEndpoint

record ServiceInstance =
  pyclass :: pyclass
  service_name :: string
  instance_name :: string
  label :: string
  name :: string

definition EC2_COST_PER_TYPE :: "(string \<times> rat) list" where
  "EC2_COST_PER_TYPE =
     [(''m3.medium'', 0.067), (''m4.2xlarge'', 0.40), (''m5.large'', 0.096),
      (''t2.2xlarge'', 0.3712), (''t2.large'', 0.0928), (''t2.medium'', 0.0464),
      (''t2.micro'', 0.0116), (''t2.small'', 0.023), (''t2.xlarge'', 0.1856),
      (''t3.small'', 0.0208), (''t3a.large'', 0.0752), (''t3a.xlarge'', 0.1504)]"

definition RDS_COST_PER_TYPE :: "(string \<times> rat) list" where
  "RDS_COST_PER_TYPE =
     [(''db.m3.2xlarge'', 1.55), (''db.m5.2xlarge'', 0.712), (''db.m5.xl'', 0.356),
      (''db.m5.xlarge'', 0.342), (''db.r5.large'', 0.25), (''db.r5.xl'', 0.50),
      (''db.r5.xlarge'', 0.48), (''db.t2.medium'', 0.073), (''db.t2.micro'', 0.017),
      (''db.t2.small'', 0.036), (''db.t3.medium'', 0.072), (''db.t3.small'', 0.036)]"

definition table_get :: "(string \<times> rat) list \<Rightarrow> string \<Rightarrow> rat" where
  "table_get t k = (case map_of t k of None \<Rightarrow> 0 | Some r \<Rightarrow> r)"

text \<open>The hourly rates are exact decimals here and floats in Python; the renderer only
  asks whether the product is positive, which rounding does not change.\<close>

fun cost_of_class :: "pyclass \<Rightarrow> rat" where
  "cost_of_class (EC2Instance t) = table_get EC2_COST_PER_TYPE t * 24 * 30"
| "cost_of_class (RdsInstance t) = table_get RDS_COST_PER_TYPE t * 24 * 30"
| "cost_of_class LoadBalancer = 0.025 * 24 * 30"
| "cost_of_class NatGateway = 0.045 * 24 * 30"
| "cost_of_class (NetworkInterface ip) =
     (case ip of None \<Rightarrow> 0 | Some a \<Rightarrow> if a = [] then 0 else 0.005 * 24 * 30)"
| "cost_of_class _ = 0"

definition cost_per_month :: "ServiceInstance \<Rightarrow> rat" where
  "cost_per_month v = cost_of_class (pyclass v)"

text \<open>The \<open>id\<close> property: an ARN is shortened to its resource component.\<close>

definition v_id :: "ServiceInstance \<Rightarrow> error + string" where
  "v_id v =
     (if take 3 (instance_name v) = ''arn''
      then (case parse_arn (instance_name v) of Inl e \<Rightarrow> Inl e | Inr elems \<Rightarrow> Inr (arn_resource elems))
      else Inr (instance_name v))"

text \<open>\<open>cidr\<close> and \<open>subnet_type\<close> exist on \<open>Subnet\<close> only.\<close>

fun cidr :: "ServiceInstance \<Rightarrow> error + string" where
  "cidr v = (case pyclass v of Subnet c p \<Rightarrow> Inr c | _ \<Rightarrow> Inl AttributeError)"

fun subnet_type :: "ServiceInstance \<Rightarrow> error + string" where
  "subnet_type v =
     (case pyclass v of Subnet c p \<Rightarrow> Inr (if p then ''Public'' else ''Private'')
      | _ \<Rightarrow> Inl AttributeError)"

section \<open>vpc.py: the graph\<close>

type_synonym Relation = "string \<times> string"

definition source :: "Relation \<Rightarrow> string" where
  "source x = fst x"

definition target :: "Relation \<Rightarrow> string" where
  "target x = snd x"

record AvailabilityZone =
  service_ids :: "string list"
  subnet_ids :: "string list"

text \<open>
  \<open>_services\<close> and \<open>azs\<close> are dictionaries whose insertion order the renderer
  observes, so they are association lists (keys unique in a dictionary); \<open>relations\<close>
  is a set of pairs; \<open>subnets\<close> is a \<open>defaultdict(list)\<close> that is only ever indexed.
\<close>

record VPC =
  vpc_id :: string
  vpc_name :: string
  cidr_block :: string
  services :: "(string \<times> ServiceInstance) list"
  relations :: "Relation set"
  azs :: "(string \<times> AvailabilityZone) list"
  subnets :: "string \<rightharpoonup> string list"

definition vpc_getitem :: "VPC \<Rightarrow> string \<Rightarrow> ServiceInstance option" where
  "vpc_getitem vpc key = map_of (services vpc) key"

definition vpc_contains :: "VPC \<Rightarrow> string \<Rightarrow> bool" where
  "vpc_contains vpc key = (key \<in> set (map fst (services vpc)))"

text \<open>\<open>_add_relation\<close>: \<open>None\<close> is the only endpoint value the guard tests for.\<close>

definition add_relation :: "VPC \<Rightarrow> string option \<Rightarrow> string option \<Rightarrow> VPC" where
  "add_relation vpc src trg =
     (case src of None \<Rightarrow> vpc
      | Some s \<Rightarrow>
          (case trg of None \<Rightarrow> vpc
           | Some t \<Rightarrow> vpc\<lparr>relations := insert (s, t) (relations vpc)\<rparr>))"

section \<open>outputs/graphviz.py: helper methods\<close>

definition STORAGE :: "string list" where
  "STORAGE = [''EPT-GW'', ''RDS'']"

definition COMPUTE :: "string list" where
  "COMPUTE = [''ASG'', ''EC2'', ''Lambda'', ''EKS'']"

definition NETWORK :: "string list" where
  "NETWORK = [''ACL'', ''ELBv1'', ''ELBv2'', ''ENI'', ''EPT-I'', ''EPT-GWLB'', ''HZ'', ''IGW'',
              ''NAT'', ''PEER'', ''RTB'', ''SG'', ''TG'', ''VPGW'']"

definition BOTTOM_SVC :: "string list" where
  "BOTTOM_SVC = [''RDS'']"

definition NW_SVC :: "string list" where
  "NW_SVC = [''ACL'', ''EPT-GW'', ''IGW'', ''RTB'', ''PEER'', ''SG'']"

definition LEVELS :: "string list list" where
  "LEVELS =
     [[''R53''], [''HZ''], [''VPC''], [''VPGW''], [''EPT-GWLB''], [''ACL''], [''ASG''],
      [''ELBv1'', ''ELBv2''], [''TG''], [''EKS''], [''Lambda''], [''EPT-I''], [''SUBN''],
      [''EC2'', ''NAT''], [''ENI''], [''RDS''], [''RTB''], [''SG''],
      [''EPT-GW'', ''PEER'', ''IGW'']]"

text \<open>\<open>level\<close>: the index of the first level that lists the type; \<open>None\<close> (after a
  printed note) when no level does.\<close>

fun level_from :: "nat \<Rightarrow> string list list \<Rightarrow> string \<Rightarrow> nat option" where
  "level_from l [] sname = None"
| "level_from l (types # rest) sname =
     (if sname \<in> set types then Some l else level_from (Suc l) rest sname)"

definition level :: "string \<Rightarrow> nat option" where
  "level sname = level_from 0 LEVELS sname"

definition graphviz_color :: "string \<Rightarrow> string" where
  "graphviz_color service =
     (if service \<in> set NETWORK then ''purple3''
      else if service \<in> set STORAGE then ''blue''
      else ''orange'')"

text \<open>\<open>graphviz_id\<close>: blank, hyphen and slash become an underscore, a period is
  deleted.\<close>

definition translate_char :: "char \<Rightarrow> string" where
  "translate_char c =
     (if c = CHR '' '' \<or> c = CHR ''-'' \<or> c = CHR ''/'' then ''_''
      else if c = CHR ''.'' then []
      else [c])"

definition graphviz_id :: "string \<Rightarrow> string" where
  "graphviz_id s = concat (map translate_char s)"

definition ICON_MAP :: "(string \<times> string) list" where
  "ICON_MAP =
     [(''ACL'', ''ACL''), (''ASG'', ''ASG''), (''EC2'', ''EC2''), (''EKS'', ''EKS''),
      (''ELBv1'', ''LB''), (''ELBv2'', ''ALB''), (''ENI'', ''ENI''), (''EPT-I'', ''EPT-I''),
      (''EPT-GW'', ''EPT-GW''), (''EPT-GWLB'', ''EPT-GWLB''), (''HZ'', ''HZ''),
      (''IGW'', ''IGW''), (''Lambda'', ''Lambda''), (''NAT'', ''NAT''),
      (''PEER'', ''vpc-peering''), (''RDS'', ''RDS''), (''RTB'', ''RouteTable''),
      (''SG'', ''SG''), (''TG'', ''TG''), (''VPGW'', ''VPNGW'')]"

definition graphviz_icon :: "string \<Rightarrow> string option" where
  "graphviz_icon service =
     (case map_of ICON_MAP service of None \<Rightarrow> None
      | Some f \<Rightarrow> Some (''../icons/'' @ f @ ''.png''))"

text \<open>One attribute of a node or edge statement, \<open>k="v"\<close>, and the attribute list.\<close>

definition render_attr :: "string \<times> string \<Rightarrow> string" where
  \<open>render_attr kv = fst kv @ ''="'' @ snd kv @ ''"''\<close>

definition render_attrs :: "(string \<times> string) list \<Rightarrow> string" where
  "render_attrs attrs = join '' '' (map render_attr attrs)"

definition node :: "ServiceInstance \<Rightarrow> error + string" where
  "node svc =
     (let attrs = [(''label'', label svc)];
          attrs = (case graphviz_icon (service_name svc) of None \<Rightarrow> attrs
                   | Some img \<Rightarrow> dict_set attrs ''image'' img);
          s_attrs = render_attrs attrs
      in case v_id svc of Inl e \<Rightarrow> Inl e
         | Inr i \<Rightarrow> Inr (graphviz_id i @ '' ['' @ s_attrs @ '']''))"

text \<open>
  \<open>edge_attrs\<close> is the dictionary \<open>attrs\<close> of \<open>edge\<close> as it stands when the statement
  is rendered. \<open>False\<close> and \<open>10\<close> are stored as the text the f-string prints for them.
  The \<open>elif\<close> for other route-table targets holds an annotation, not an assignment, and
  changes nothing.
\<close>

definition edge_attrs :: "ServiceInstance \<Rightarrow> ServiceInstance \<Rightarrow> VPC \<Rightarrow> error + (string \<times> string) list" where
  "edge_attrs src tgt vpc =
     (let attrs = [(''color'', graphviz_color (service_name src))] in
      case py_gt (level (service_name src)) (level (service_name tgt)) of
        Inl e \<Rightarrow> Inl e
      | Inr back \<Rightarrow>
          let attrs =
                (if back
                 then dict_set (dict_set attrs ''constraint'' ''False'') ''style'' ''invis''
                 else if 0 < cost_per_month src \<and> service_name tgt = ''SG''
                 then dict_set (dict_set attrs ''constraint'' ''False'') ''style'' ''invis''
                 else attrs)
          in
          if service_name src = ''ENI'' \<and> service_name tgt = ''RTB''
          then (case v_id src of Inl e \<Rightarrow> Inl e
                | Inr si \<Rightarrow>
                    (case v_id tgt of Inl e \<Rightarrow> Inl e
                     | Inr ti \<Rightarrow>
                         if (si, ti) \<notin> relations vpc
                         then Inr (dict_set (dict_set attrs ''weight'' ''10'') ''style'' ''invis'')
                         else Inr attrs))
          else Inr attrs)"

definition edge_stmt :: "string \<Rightarrow> string \<Rightarrow> (string \<times> string) list \<Rightarrow> string" where
  "edge_stmt si ti attrs =
     graphviz_id si @ '' -> '' @ graphviz_id ti @ '' ['' @ render_attrs attrs @ '']''"

text \<open>\<open>edge\<close>: callers pass the results of \<open>vpc[...]\<close>, which may be \<open>None\<close>; reading an
  attribute of \<open>None\<close> is an \<open>AttributeError\<close>. A subnet source yields \<open>None\<close> (no
  statement) before the target is looked at.\<close>

definition edge :: "ServiceInstance option \<Rightarrow> ServiceInstance option \<Rightarrow> VPC \<Rightarrow> error + string option" where
  "edge source_opt target_opt vpc =
     (case source_opt of None \<Rightarrow> Inl AttributeError
      | Some src \<Rightarrow>
          if service_name src = ''SUBN'' then Inr None
          else (case target_opt of None \<Rightarrow> Inl AttributeError
                | Some tgt \<Rightarrow>
                    (case edge_attrs src tgt vpc of Inl e \<Rightarrow> Inl e
                     | Inr attrs \<Rightarrow>
                         (case v_id src of Inl e \<Rightarrow> Inl e
                          | Inr si \<Rightarrow>
                              (case v_id tgt of Inl e \<Rightarrow> Inl e
                               | Inr ti \<Rightarrow> Inr (Some (edge_stmt si ti attrs)))))))"

section \<open>outputs/graphviz.py: to_graphviz\<close>

text \<open>The holding objects of the template.\<close>

record GVSN =
  sn_cluster_id :: string
  sn_id :: string
  sn_label :: string
  sn_services :: "string list"

record GVAZ =
  az_cluster_id :: string
  az_label :: string
  az_subnets :: "GVSN list"
  az_top_services :: "string list"
  az_bottom_services :: "string list"

text \<open>
  The dictionary handed to the template. The template prints every entry of each list
  on a line of its own, in list order, so the emitted text is a function of this record.
\<close>

record gv_context =
  ctx_vpc_name :: string
  ctx_route53_services :: "string list"
  ctx_top_services :: "string list"
  ctx_azs :: "GVAZ list"
  ctx_bottom_services :: "string list"
  ctx_nw_services :: "string list"
  ctx_svc_types :: "(string \<times> string list) list"
  ctx_edges :: "string list"

subsection \<open>The connected set\<close>

definition relation_ends :: "VPC \<Rightarrow> string set" where
  "relation_ends vpc = source ` relations vpc \<union> target ` relations vpc"

definition add_id :: "ServiceInstance \<Rightarrow> string set \<Rightarrow> error + string set" where
  "add_id v conn = (case v_id v of Inl e \<Rightarrow> Inl e | Inr i \<Rightarrow> Inr (insert i conn))"

fun add_connected :: "ServiceInstance list \<Rightarrow> string set \<Rightarrow> error + string set" where
  "add_connected [] conn = Inr conn"
| "add_connected (v # vs) conn =
     (case (if service_name v \<in> set STORAGE \<or> service_name v \<in> set COMPUTE
            then add_id v conn else Inr conn) of
        Inl e \<Rightarrow> Inl e
      | Inr c1 \<Rightarrow>
          (case (if service_name v = ''HZ'' then add_id v c1 else Inr c1) of
             Inl e \<Rightarrow> Inl e
           | Inr c2 \<Rightarrow> add_connected vs c2))"

definition connected_ids :: "VPC \<Rightarrow> error + string set" where
  "connected_ids vpc = add_connected (map snd (services vpc)) (relation_ends vpc)"

subsection \<open>Containment: the two tallies\<close>

text \<open>
  Indexing the \<open>defaultdict\<close> \<open>vpc.subnets\<close> with a missing key stores an empty list
  under that key and returns it. A \<open>Counter\<close> is the list of everything counted so far:
  \<open>update\<close> appends, the count of a key is \<open>count_list\<close>, the keys are the members.
\<close>

definition subnets_getitem :: "(string \<rightharpoonup> string list) \<Rightarrow> string \<Rightarrow> string list \<times> (string \<rightharpoonup> string list)" where
  "subnets_getitem m k = (case m k of None \<Rightarrow> ([], m(k \<mapsto> [])) | Some xs \<Rightarrow> (xs, m))"

fun tally_subnets :: "string list \<Rightarrow> string list \<times> (string \<rightharpoonup> string list) \<Rightarrow> string list \<times> (string \<rightharpoonup> string list)" where
  "tally_subnets [] (sn_tally, m) = (sn_tally, m)"
| "tally_subnets (k # ks) (sn_tally, m) =
     tally_subnets ks (sn_tally @ fst (subnets_getitem m k), snd (subnets_getitem m k))"

fun tally_zones :: "AvailabilityZone list \<Rightarrow> string list \<times> string list \<times> (string \<rightharpoonup> string list) \<Rightarrow> string list \<times> string list \<times> (string \<rightharpoonup> string list)" where
  "tally_zones [] (az_tally, sn_tally, m) = (az_tally, sn_tally, m)"
| "tally_zones (availzone # zs) (az_tally, sn_tally, m) =
     tally_zones zs
       (az_tally @ service_ids availzone,
        fst (tally_subnets (subnet_ids availzone) (sn_tally, m)),
        snd (tally_subnets (subnet_ids availzone) (sn_tally, m)))"

definition singles :: "string list \<Rightarrow> string set" where
  "singles tally = set (filter (\<lambda>k. count_list tally k = 1) tally)"

definition single_subnet_of :: "string list \<Rightarrow> string set" where
  "single_subnet_of sn_tally = singles sn_tally"

definition single_az_of :: "string list \<Rightarrow> string list \<Rightarrow> string set" where
  "single_az_of az_tally sn_tally =
     set (filter (\<lambda>k. count_list az_tally k = 1 \<and> k \<notin> single_subnet_of sn_tally) az_tally)"

definition contained_of :: "string list \<Rightarrow> string list \<Rightarrow> string set" where
  "contained_of az_tally sn_tally = single_subnet_of sn_tally \<union> single_az_of az_tally sn_tally"

subsection \<open>Routing the services to the shared areas\<close>

record routing =
  route53_services :: "string list"
  top_services :: "string list"
  bottom_services :: "string list"
  nw_services :: "string list"
  ranks :: "(string \<times> string list) list"
  enis :: "string list"
  rtbs :: "string list"

definition empty_routing :: routing where
  "empty_routing =
     \<lparr>route53_services = [], top_services = [], bottom_services = [], nw_services = [],
      ranks = [], enis = [], rtbs = []\<rparr>"

definition start_vpc :: "nat option" where
  "start_vpc = level ''VPC''"

definition end_top :: "nat option" where
  "end_top = level ''SUBN''"

definition end_subnet :: "nat option" where
  "end_subnet = level ''ENI''"

text \<open>\<open>ranks[k].append(v)\<close> on a \<open>defaultdict(list)\<close>.\<close>

definition ranks_append :: "(string \<times> string list) list \<Rightarrow> string \<Rightarrow> string \<Rightarrow> (string \<times> string list) list" where
  "ranks_append r k v =
     (case map_of r k of None \<Rightarrow> r @ [(k, [v])] | Some xs \<Rightarrow> dict_set r k (xs @ [v]))"

text \<open>The \<open>if\<close>/\<open>elif\<close> chain of the first loop: which shared list receives the node.\<close>

definition place_shared :: "string set \<Rightarrow> string set \<Rightarrow> ServiceInstance \<Rightarrow> string \<Rightarrow> string \<Rightarrow> routing \<Rightarrow> error + routing" where
  "place_shared conn cont v i nv r =
     (let l = level (service_name v);
          display_outside_sn = (i \<in> conn \<and> i \<notin> cont)
      in case py_lt l start_vpc of
           Inl e \<Rightarrow> Inl e
         | Inr is_above \<Rightarrow>
             if is_above then Inr (r\<lparr>route53_services := route53_services r @ [nv]\<rparr>)
             else (case py_lt l end_top of
                     Inl e \<Rightarrow> Inl e
                   | Inr is_top \<Rightarrow>
                       if is_top \<and> i \<notin> cont
                       then Inr (r\<lparr>top_services := top_services r @ [nv]\<rparr>)
                       else if service_name v \<in> set BOTTOM_SVC \<and> display_outside_sn
                       then Inr (r\<lparr>bottom_services := bottom_services r @ [nv]\<rparr>)
                       else if service_name v \<in> set NW_SVC \<and> display_outside_sn
                       then Inr (r\<lparr>nw_services := nw_services r @ [nv]\<rparr>)
                       else Inr r))"

definition note_ranks :: "string set \<Rightarrow> ServiceInstance \<Rightarrow> string \<Rightarrow> routing \<Rightarrow> routing" where
  "note_ranks conn v i r =
     (let r1 = (if service_name v \<noteq> ''SUBN'' \<and> i \<in> conn
                then r\<lparr>ranks := ranks_append (ranks r) (service_name v) i\<rparr> else r);
          r2 = (if service_name v = ''ENI'' \<and> i \<in> conn
                then r1\<lparr>enis := enis r1 @ [i]\<rparr> else r1)
      in if service_name v = ''RTB'' \<and> i \<in> conn
         then r2\<lparr>rtbs := rtbs r2 @ [i]\<rparr> else r2)"

definition route_service :: "string set \<Rightarrow> string set \<Rightarrow> ServiceInstance \<Rightarrow> routing \<Rightarrow> error + routing" where
  "route_service conn cont v r =
     (case node v of
        Inl e \<Rightarrow> Inl e
      | Inr nv \<Rightarrow>
          (case v_id v of
             Inl e \<Rightarrow> Inl e
           | Inr i \<Rightarrow>
               (case place_shared conn cont v i nv r of
                  Inl e \<Rightarrow> Inl e
                | Inr r1 \<Rightarrow> Inr (note_ranks conn v i r1))))"

fun route_services :: "string set \<Rightarrow> string set \<Rightarrow> ServiceInstance list \<Rightarrow> routing \<Rightarrow> error + routing" where
  "route_services conn cont [] r = Inr r"
| "route_services conn cont (v # vs) r =
     (case route_service conn cont v r of
        Inl e \<Rightarrow> Inl e
      | Inr r1 \<Rightarrow> route_services conn cont vs r1)"

subsection \<open>The zone and subnet clusters\<close>

text \<open>\<open>sorted(xs, key=f)\<close>: every key is computed first, in list order, then the list is
  sorted stably by key.\<close>

definition sorted_by :: "('a \<Rightarrow> error + 'k::linorder) \<Rightarrow> 'a list \<Rightarrow> error + 'a list" where
  "sorted_by f xs =
     (case map_err f xs of Inl e \<Rightarrow> Inl e
      | Inr ks \<Rightarrow> Inr (map snd (sort_key fst (zip ks xs))))"

definition cidr_sort :: "ServiceInstance option \<Rightarrow> error + int list" where
  "cidr_sort svc_opt =
     (case svc_opt of None \<Rightarrow> Inl AttributeError
      | Some svc \<Rightarrow>
          (case cidr svc of Inl e \<Rightarrow> Inl e
           | Inr c \<Rightarrow> map_err py_int (split_on (CHR ''.'') (hd (split_on (CHR ''/'') c)))))"

definition inside_key :: "ServiceInstance option \<Rightarrow> error + string \<times> string" where
  "inside_key x = (case x of None \<Rightarrow> Inl AttributeError | Some s \<Rightarrow> Inr (service_name s, instance_name s))"

definition node_opt :: "ServiceInstance option \<Rightarrow> error + string" where
  "node_opt x = (case x of None \<Rightarrow> Inl AttributeError | Some s \<Rightarrow> node s)"

text \<open>The two \<open>if\<close>s of the inner loop over the services of one zone.\<close>

definition az_place :: "AvailabilityZone \<Rightarrow> string set \<Rightarrow> ServiceInstance \<Rightarrow> string list \<times> string list \<Rightarrow> error + string list \<times> string list" where
  "az_place availzone single_az v tb =
     (let l = level (service_name v) in
      case node v of
        Inl e \<Rightarrow> Inl e
      | Inr nv \<Rightarrow>
          (case v_id v of
             Inl e \<Rightarrow> Inl e
           | Inr i \<Rightarrow>
               let display_in_az = (i \<in> set (service_ids availzone) \<and> i \<in> single_az) in
               (case py_lt l end_top of
                  Inl e \<Rightarrow> Inl e
                | Inr is_top \<Rightarrow>
                    (case py_gt l end_subnet of
                       Inl e \<Rightarrow> Inl e
                     | Inr is_bottom \<Rightarrow>
                         Inr (if is_top \<and> display_in_az then fst tb @ [nv] else fst tb,
                              if is_bottom \<and> display_in_az then snd tb @ [nv] else snd tb)))))"

fun az_places :: "AvailabilityZone \<Rightarrow> string set \<Rightarrow> ServiceInstance list \<Rightarrow> string list \<times> string list \<Rightarrow> error + string list \<times> string list" where
  "az_places availzone single_az [] tb = Inr tb"
| "az_places availzone single_az (v # vs) tb =
     (case az_place availzone single_az v tb of
        Inl e \<Rightarrow> Inl e
      | Inr tb1 \<Rightarrow> az_places availzone single_az vs tb1)"

text \<open>One subnet cluster. The state returned is the graph after the read of
  \<open>vpc.subnets[subnet.id]\<close>, whatever happens afterwards.\<close>

definition subnet_label :: "ServiceInstance \<Rightarrow> error + string" where
  "subnet_label subnet =
     (case subnet_type subnet of Inl e \<Rightarrow> Inl e
      | Inr t \<Rightarrow>
          (case cidr subnet of Inl e \<Rightarrow> Inl e
           | Inr c \<Rightarrow>
               Inr (t @ [CHR 0x5C, CHR ''n''] @ c @ [CHR 0x5C, CHR ''n''] @ name subnet
                      @ [CHR 0x5C, CHR ''n''] @ instance_name subnet)))"

definition gv_subnet :: "string set \<Rightarrow> string set \<Rightarrow> nat \<Rightarrow> ServiceInstance option \<Rightarrow> VPC \<Rightarrow> (error + GVSN) \<times> VPC" where
  "gv_subnet conn single_subnet sn_i subnet_opt vpc =
     (case subnet_opt of
        None \<Rightarrow> (Inl AttributeError, vpc)
      | Some subnet \<Rightarrow>
          (case subnet_label subnet of
             Inl e \<Rightarrow> (Inl e, vpc)
           | Inr lbl \<Rightarrow>
               (case v_id subnet of
                  Inl e \<Rightarrow> (Inl e, vpc)
                | Inr i \<Rightarrow>
                    let members = fst (subnets_getitem (subnets vpc) i);
                        vpc1 = vpc\<lparr>subnets := snd (subnets_getitem (subnets vpc) i)\<rparr>;
                        inside = map (vpc_getitem vpc1)
                                   (filter (\<lambda>x. x \<in> conn \<and> x \<in> single_subnet) members)
                    in (case sorted_by inside_key inside of
                          Inl e \<Rightarrow> (Inl e, vpc1)
                        | Inr ordered \<Rightarrow>
                            (case map_err node_opt ordered of
                               Inl e \<Rightarrow> (Inl e, vpc1)
                             | Inr nodes \<Rightarrow>
                                 (Inr \<lparr>sn_cluster_id = str_of_nat (1000 + sn_i * 10), sn_id = i,
                                       sn_label = lbl, sn_services = nodes\<rparr>, vpc1))))))"

fun gv_subnets :: "string set \<Rightarrow> string set \<Rightarrow> ServiceInstance option list \<Rightarrow> nat \<Rightarrow> VPC \<Rightarrow> (error + GVSN list \<times> nat) \<times> VPC" where
  "gv_subnets conn single_subnet [] sn_i vpc = (Inr ([], sn_i), vpc)"
| "gv_subnets conn single_subnet (subnet # rest) sn_i vpc =
     (case gv_subnet conn single_subnet sn_i subnet vpc of
        (Inl e, vpc1) \<Rightarrow> (Inl e, vpc1)
      | (Inr sn, vpc1) \<Rightarrow>
          (case gv_subnets conn single_subnet rest (Suc sn_i) vpc1 of
             (Inl e, vpc2) \<Rightarrow> (Inl e, vpc2)
           | (Inr (sns, sn_j), vpc2) \<Rightarrow> (Inr (sn # sns, sn_j), vpc2)))"

definition gv_zone :: "string set \<Rightarrow> string set \<Rightarrow> string set \<Rightarrow> nat \<Rightarrow> nat \<Rightarrow> string \<times> AvailabilityZone \<Rightarrow> VPC \<Rightarrow> (error + GVAZ \<times> nat) \<times> VPC" where
  "gv_zone conn single_subnet single_az az_i sn_i kz vpc =
     (case az_places (snd kz) single_az (map snd (services vpc)) ([], []) of
        Inl e \<Rightarrow> (Inl e, vpc)
      | Inr tb \<Rightarrow>
          (case sorted_by cidr_sort (map (vpc_getitem vpc) (subnet_ids (snd kz))) of
             Inl e \<Rightarrow> (Inl e, vpc)
           | Inr subnet_instances \<Rightarrow>
               (case gv_subnets conn single_subnet subnet_instances sn_i vpc of
                  (Inl e, vpc1) \<Rightarrow> (Inl e, vpc1)
                | (Inr (sns, sn_j), vpc1) \<Rightarrow>
                    (Inr (\<lparr>az_cluster_id = str_of_nat (100 + az_i * 10), az_label = fst kz,
                           az_subnets = sns, az_top_services = fst tb,
                           az_bottom_services = snd tb\<rparr>, sn_j), vpc1))))"

fun gv_zones :: "string set \<Rightarrow> string set \<Rightarrow> string set \<Rightarrow> (string \<times> AvailabilityZone) list \<Rightarrow> nat \<Rightarrow> nat \<Rightarrow> VPC \<Rightarrow> (error + GVAZ list) \<times> VPC" where
  "gv_zones conn single_subnet single_az [] az_i sn_i vpc = (Inr [], vpc)"
| "gv_zones conn single_subnet single_az (kz # rest) az_i sn_i vpc =
     (case gv_zone conn single_subnet single_az az_i sn_i kz vpc of
        (Inl e, vpc1) \<Rightarrow> (Inl e, vpc1)
      | (Inr (az, sn_j), vpc1) \<Rightarrow>
          (case gv_zones conn single_subnet single_az rest (Suc az_i) sn_j vpc1 of
             (Inl e, vpc2) \<Rightarrow> (Inl e, vpc2)
           | (Inr gvazs, vpc2) \<Rightarrow> (Inr (az # gvazs), vpc2)))"

subsection \<open>The edges\<close>

definition relation_edges :: "VPC \<Rightarrow> error + string option list" where
  "relation_edges vpc =
     map_err (\<lambda>x. edge (vpc_getitem vpc (source x)) (vpc_getitem vpc (target x)) vpc)
       (filter (\<lambda>x. vpc_contains vpc (source x) \<and> vpc_contains vpc (target x))
          (sorted_list_of_set (relations vpc)))"

definition eni_rtb_edges :: "VPC \<Rightarrow> string list \<Rightarrow> string list \<Rightarrow> error + string option list" where
  "eni_rtb_edges vpc es rs =
     map_err (\<lambda>p. edge (vpc_getitem vpc (fst p)) (vpc_getitem vpc (snd p)) vpc) (List.product es rs)"

definition not_none :: "'a option list \<Rightarrow> 'a list" where
  "not_none raw = concat (map (\<lambda>x. case x of None \<Rightarrow> [] | Some y \<Rightarrow> [y]) raw)"

definition output_edges :: "VPC \<Rightarrow> string list \<Rightarrow> string list \<Rightarrow> error + string list" where
  "output_edges vpc es rs =
     (case relation_edges vpc of
        Inl e \<Rightarrow> Inl e
      | Inr raw \<Rightarrow>
          (case eni_rtb_edges vpc es rs of
             Inl e \<Rightarrow> Inl e
           | Inr extra \<Rightarrow> Inr (sort (not_none (raw @ extra)))))"

subsection \<open>The whole function\<close>

text \<open>
  \<open>to_graphviz\<close> returns what it hands to the template, or the exception it raised,
  together with the graph as it is left behind. The only writes to the graph are the
  reads of the \<open>defaultdict\<close> \<open>vpc.subnets\<close>.
\<close>

definition to_graphviz :: "VPC \<Rightarrow> (error + gv_context) \<times> VPC" where
  "to_graphviz vpc =
     (case connected_ids vpc of
        Inl e \<Rightarrow> (Inl e, vpc)
      | Inr conn \<Rightarrow>
          let tallies = tally_zones (map snd (azs vpc)) ([], [], subnets vpc);
              az_tally = fst tallies;
              sn_tally = fst (snd tallies);
              vpc1 = vpc\<lparr>subnets := snd (snd tallies)\<rparr>;
              single_subnet = single_subnet_of sn_tally;
              single_az = single_az_of az_tally sn_tally;
              cont = contained_of az_tally sn_tally
          in (case route_services conn cont (map snd (services vpc1)) empty_routing of
                Inl e \<Rightarrow> (Inl e, vpc1)
              | Inr r \<Rightarrow>
                  (case gv_zones conn single_subnet single_az (sort_key fst (azs vpc1)) 0 0 vpc1 of
                     (Inl e, vpc2) \<Rightarrow> (Inl e, vpc2)
                   | (Inr gvazs, vpc2) \<Rightarrow>
                       (case output_edges vpc2 (enis r) (rtbs r) of
                          Inl e \<Rightarrow> (Inl e, vpc2)
                        | Inr edges \<Rightarrow>
                            (Inr \<lparr>ctx_vpc_name = vpc_name vpc2 @ [CHR 0x5C, CHR ''n''] @ vpc_id vpc2
                                                   @ [CHR 0x5C, CHR ''n''] @ cidr_block vpc2,
                                  ctx_route53_services = route53_services r,
                                  ctx_top_services = top_services r,
                                  ctx_azs = gvazs,
                                  ctx_bottom_services = bottom_services r,
                                  ctx_nw_services = nw_services r,
                                  ctx_svc_types = ranks r,
                                  ctx_edges = edges\<rparr>, vpc2)))))"

section \<open>Example graphs\<close>

text \<open>A resource without a \<open>Name\<close> tag: its label and name are its instance name.\<close>

definition ex_service :: "pyclass \<Rightarrow> string \<Rightarrow> string \<Rightarrow> ServiceInstance" where
  "ex_service c sname i =
     \<lparr>pyclass = c, service_name = sname, instance_name = i, label = i, name = i\<rparr>"

definition ex_ec2 :: ServiceInstance where
  "ex_ec2 = ex_service (EC2Instance ''t2.micro'') ''EC2'' ''i-1''"

definition ex_ec2_free :: ServiceInstance where
  "ex_ec2_free = ex_service (EC2Instance ''x9.unlisted'') ''EC2'' ''i-2''"

definition ex_sg :: ServiceInstance where
  "ex_sg = ex_service SecurityGroup ''SG'' ''sg-1''"

definition ex_eni :: ServiceInstance where
  "ex_eni = ex_service (NetworkInterface None) ''ENI'' ''eni-1''"

definition ex_rtb :: ServiceInstance where
  "ex_rtb = ex_service ServiceInstance ''RTB'' ''rtb-1''"


definition ex_empty_vpc :: VPC where
  "ex_empty_vpc =
     \<lparr>vpc_id = ''vpc-1'', vpc_name = ''main'', cidr_block = ''10.0.0.0/16'', services = [],
      relations = {}, azs = [], subnets = Map.empty\<rparr>"

definition ex_subnet :: ServiceInstance where
  "ex_subnet = ex_service (Subnet ''10.0.0.0/24'' False) ''SUBN'' ''subnet-1''"

text \<open>One zone with one subnet that no resource lives in.\<close>

definition ex_empty_subnet_vpc :: VPC where
  "ex_empty_subnet_vpc =
     ex_empty_vpc\<lparr>services := [(''subnet-1'', ex_subnet)],
       azs := [(''us-east-1a'', \<lparr>service_ids = [], subnet_ids = [''subnet-1'']\<rparr>)]\<rparr>"

section \<open>What rendering may change\<close>

text \<open>The second map is the first one with, possibly, empty lists stored under keys
  that had no entry.\<close>

definition defaults_added :: "(string \<rightharpoonup> string list) \<Rightarrow> (string \<rightharpoonup> string list) \<Rightarrow> bool" where
  "defaults_added m m' = (\<forall>k. m' k = m k \<or> (m k = None \<and> m' k = Some []))"

definition only_defaults_added :: "VPC \<Rightarrow> VPC \<Rightarrow> bool" where
  "only_defaults_added vpc vpc' =
     (\<exists>m'. vpc' = vpc\<lparr>subnets := m'\<rparr> \<and> defaults_added (subnets vpc) m')"

section \<open>The containment analysis of a graph\<close>

text \<open>Reading the \<open>defaultdict\<close> without regard to what the read stores.\<close>

definition subnets_read :: "(string \<rightharpoonup> string list) \<Rightarrow> string \<Rightarrow> string list" where
  "subnets_read m k = (case m k of None \<Rightarrow> [] | Some xs \<Rightarrow> xs)"

text \<open>The subnet ids the zones list, zone after zone.\<close>

definition listed_subnets :: "VPC \<Rightarrow> string list" where
  "listed_subnets vpc = concat (map (\<lambda>kz. subnet_ids (snd kz)) (azs vpc))"

text \<open>The two counters and the three sets as \<open>to_graphviz\<close> computes them from its
  argument.\<close>

definition az_tally_of :: "VPC \<Rightarrow> string list" where
  "az_tally_of vpc = fst (tally_zones (map snd (azs vpc)) ([], [], subnets vpc))"

definition sn_tally_of :: "VPC \<Rightarrow> string list" where
  "sn_tally_of vpc = fst (snd (tally_zones (map snd (azs vpc)) ([], [], subnets vpc)))"

definition single_subnet :: "VPC \<Rightarrow> string set" where
  "single_subnet vpc = single_subnet_of (sn_tally_of vpc)"

definition single_az :: "VPC \<Rightarrow> string set" where
  "single_az vpc = single_az_of (az_tally_of vpc) (sn_tally_of vpc)"

definition contained_ids :: "VPC \<Rightarrow> string set" where
  "contained_ids vpc = contained_of (az_tally_of vpc) (sn_tally_of vpc)"

text \<open>A load balancer recorded in two zones and in one subnet.\<close>

definition ex_two_zone_vpc :: VPC where
  "ex_two_zone_vpc =
     ex_empty_vpc\<lparr>
       azs := [(''us-east-1a'', \<lparr>service_ids = [''lb-1''], subnet_ids = [''subnet-1'']\<rparr>),
               (''us-east-1b'', \<lparr>service_ids = [''lb-1''], subnet_ids = [''subnet-2'']\<rparr>)],
       subnets := [''subnet-1'' \<mapsto> [''lb-1'']]\<rparr>"

text \<open>A database recorded in one zone and in two subnets, next to an instance in one
  subnet of that zone.\<close>

definition ex_one_zone_vpc :: VPC where
  "ex_one_zone_vpc =
     ex_empty_vpc\<lparr>
       azs := [(''us-east-1a'',
                \<lparr>service_ids = [''db-1'', ''i-1''], subnet_ids = [''subnet-1'', ''subnet-2'']\<rparr>)],
       subnets := [''subnet-1'' \<mapsto> [''db-1'', ''i-1''], ''subnet-2'' \<mapsto> [''db-1'']]\<rparr>"

section \<open>Order of the output\<close>

text \<open>The \<open>id\<close> of what \<open>vpc[k]\<close> returned.\<close>

definition opt_id :: "ServiceInstance option \<Rightarrow> error + string" where
  "opt_id x = (case x of None \<Rightarrow> Inl AttributeError | Some v \<Rightarrow> v_id v)"



text \<open>The graph as the tally loop leaves it.\<close>

definition tallied :: "VPC \<Rightarrow> VPC" where
  "tallied vpc =
     vpc\<lparr>subnets := snd (snd (tally_zones (map snd (azs vpc)) ([], [], subnets vpc)))\<rparr>"

section \<open>Statements and the resources they name\<close>

text \<open>The node identifier a resource is drawn under (empty when its \<open>id\<close> raises).\<close>

definition gv_node_id :: "ServiceInstance \<Rightarrow> string" where
  "gv_node_id v = (case v_id v of Inl e \<Rightarrow> [] | Inr i \<Rightarrow> graphviz_id i)"

text \<open>An edge statement for the pair of resource ids \<open>(si, ti)\<close> starts with the two node
  identifiers and the opening bracket; \<open>statements_for\<close> selects these statements.\<close>

definition edge_head :: "string \<Rightarrow> string \<Rightarrow> string" where
  "edge_head si ti = graphviz_id si @ '' -> '' @ graphviz_id ti @ '' [''"

definition statements_for :: "string \<Rightarrow> string \<Rightarrow> string list \<Rightarrow> string list" where
  "statements_for si ti es = filter (prefix (edge_head si ti)) es"

text \<open>An interface and a route table, each named by a relation, with and without the
  relation from the one to the other.\<close>

definition ex_route_vpc :: VPC where
  "ex_route_vpc =
     ex_empty_vpc\<lparr>
       services := [(''eni-1'', ex_eni), (''rtb-1'', ex_rtb), (''i-1'', ex_ec2)],
       relations := {(''i-1'', ''eni-1''), (''eni-1'', ''rtb-1'')}\<rparr>"

definition ex_aligned_vpc :: VPC where
  "ex_aligned_vpc =
     ex_empty_vpc\<lparr>
       services := [(''eni-1'', ex_eni), (''rtb-1'', ex_rtb), (''i-1'', ex_ec2)],
       relations := {(''i-1'', ''eni-1''), (''rtb-1'', ''i-1'')}\<rparr>"

section \<open>The layout decision, resource by resource\<close>

text \<open>
  The places a node statement can be printed: the four shared lists, the two lists of a
  zone cluster (taken together), and the list of a subnet cluster.
\<close>

datatype area = AboveNetwork | TopNetwork | BottomNetwork | SideNetwork | ZoneCluster | SubnetCluster

text \<open>
  The decision for the shared areas, in words: above the network if the level is below
  the level of \<open>VPC\<close> (2); else top of the network if the level is below the level of
  \<open>SUBN\<close> (12) and the resource is not contained; else bottom of the network if the type
  is a bottom-tier type and the resource is connected and not contained; else side of the
  network if the type is a network-fabric type and the resource is connected and not
  contained; else none.
\<close>

definition shared_area_of :: "string set \<Rightarrow> string set \<Rightarrow> ServiceInstance \<Rightarrow> area option" where
  "shared_area_of conn cont v =
     (case level (service_name v) of
        None \<Rightarrow> None
      | Some l \<Rightarrow>
          (case v_id v of
             Inl e \<Rightarrow> None
           | Inr i \<Rightarrow>
               if l < 2 then Some AboveNetwork
               else if l < 12 \<and> i \<notin> cont then Some TopNetwork
               else if service_name v \<in> set BOTTOM_SVC \<and> i \<in> conn \<and> i \<notin> cont
               then Some BottomNetwork
               else if service_name v \<in> set NW_SVC \<and> i \<in> conn \<and> i \<notin> cont
               then Some SideNetwork
               else None))"

text \<open>
  The decision for the clusters, in words: under the zone cluster if the resource is
  single_az and its level is below the level of \<open>SUBN\<close> (12) or beyond the level of
  \<open>ENI\<close> (14); else under the subnet cluster if it is single_subnet and connected; else
  none.
\<close>

definition nested_area_of :: "string set \<Rightarrow> string set \<Rightarrow> string set \<Rightarrow> ServiceInstance \<Rightarrow> area option" where
  "nested_area_of conn sa ss v =
     (case level (service_name v) of
        None \<Rightarrow> None
      | Some l \<Rightarrow>
          (case v_id v of
             Inl e \<Rightarrow> None
           | Inr i \<Rightarrow>
               if i \<in> sa \<and> (l < 12 \<or> 14 < l) then Some ZoneCluster
               else if i \<in> ss \<and> i \<in> conn then Some SubnetCluster
               else None))"

text \<open>The node statements of an area of the rendered context.\<close>

fun area_nodes :: "gv_context \<Rightarrow> area \<Rightarrow> string list" where
  "area_nodes ctx AboveNetwork = ctx_route53_services ctx"
| "area_nodes ctx TopNetwork = ctx_top_services ctx"
| "area_nodes ctx BottomNetwork = ctx_bottom_services ctx"
| "area_nodes ctx SideNetwork = ctx_nw_services ctx"
| "area_nodes ctx ZoneCluster =
     concat (map (\<lambda>az. az_top_services az @ az_bottom_services az) (ctx_azs ctx))"
| "area_nodes ctx SubnetCluster =
     concat (map (\<lambda>az. concat (map sn_services (az_subnets az))) (ctx_azs ctx))"

text \<open>An interface that lives in one subnet and that no relation names.\<close>

definition ex_lone_eni_vpc :: VPC where
  "ex_lone_eni_vpc =
     ex_empty_vpc\<lparr>
       services := [(''subnet-1'', ex_subnet), (''eni-1'', ex_eni)],
       azs := [(''us-east-1a'', \<lparr>service_ids = [], subnet_ids = [''subnet-1'']\<rparr>)],
       subnets := [''subnet-1'' \<mapsto> [''eni-1'']]\<rparr>"

definition ex_db :: ServiceInstance where
  "ex_db = ex_service (RdsInstance ''db.t3.small'') ''RDS'' ''db-1''"

text \<open>A zone with a database in two of its subnets and an instance with its interface and
  security group in one.\<close>

definition ex_layout_vpc :: VPC where
  "ex_layout_vpc =
     ex_empty_vpc\<lparr>
       services := [(''subnet-1'', ex_subnet),
                    (''subnet-2'', ex_service (Subnet ''10.0.1.0/24'' False) ''SUBN'' ''subnet-2''),
                    (''i-1'', ex_ec2), (''sg-1'', ex_sg), (''eni-1'', ex_eni),
                    (''db-1'', ex_db)],
       relations := {(''i-1'', ''sg-1''), (''i-1'', ''eni-1''), (''db-1'', ''sg-1'')},
       azs := [(''us-east-1a'',
                \<lparr>service_ids = [''i-1'', ''db-1''], subnet_ids = [''subnet-1'', ''subnet-2'']\<rparr>)],
       subnets := [''subnet-1'' \<mapsto> [''i-1'', ''eni-1'', ''db-1''], ''subnet-2'' \<mapsto> [''db-1'']]\<rparr>"

section \<open>Facts about the helper methods\<close>

lemma level_ENI: "level ''ENI'' = Some 14"
  by (simp add: level_def LEVELS_def)

lemma level_RTB: "level ''RTB'' = Some 16"
  by (simp add: level_def LEVELS_def)

lemma level_SG: "level ''SG'' = Some 17"
  by (simp add: level_def LEVELS_def)

lemma level_EC2: "level ''EC2'' = Some 13"
  by (simp add: level_def LEVELS_def)

lemma color_ENI: "graphviz_color ''ENI'' = ''purple3''"
  by (simp add: graphviz_color_def NETWORK_def)

lemma v_id_ex_service: "take 3 i \<noteq> ''arn'' \<Longrightarrow> v_id (ex_service c sname i) = Inr i"
  by (simp add: v_id_def ex_service_def)

lemma edge_attrs_back:
  assumes "level (service_name src) = Some ls" and "level (service_name tgt) = Some lt"
    and "lt < ls"
  shows "edge_attrs src tgt vpc =
           Inr [(''color'', graphviz_color (service_name src)),
                (''constraint'', ''False''), (''style'', ''invis'')]"
proof -
  have "service_name src \<noteq> ''ENI'' \<or> service_name tgt \<noteq> ''RTB''"
    using assms by (auto simp: level_ENI level_RTB)
  then show ?thesis
    using assms by (auto simp: edge_attrs_def py_gt_def Let_def)
qed

lemma edge_attrs_cost_sg:
  assumes "level (service_name src) = Some ls"
    and "service_name tgt = ''SG''" and "0 < cost_per_month src"
  shows "edge_attrs src tgt vpc =
           Inr [(''color'', graphviz_color (service_name src)),
                (''constraint'', ''False''), (''style'', ''invis'')]"
  using assms by (simp add: edge_attrs_def py_gt_def Let_def level_SG)

lemma edge_attrs_plain:
  assumes "level (service_name src) = Some ls" and "level (service_name tgt) = Some lt"
    and "\<not> lt < ls" and "\<not> (0 < cost_per_month src \<and> service_name tgt = ''SG'')"
    and "\<not> (service_name src = ''ENI'' \<and> service_name tgt = ''RTB'')"
  shows "edge_attrs src tgt vpc = Inr [(''color'', graphviz_color (service_name src))]"
  using assms by (auto simp: edge_attrs_def py_gt_def Let_def)

lemma edge_attrs_route_table:
  assumes "service_name src = ''ENI''" and "service_name tgt = ''RTB''"
    and "v_id src = Inr si" and "v_id tgt = Inr ti"
  shows "edge_attrs src tgt vpc =
           Inr (if (si, ti) \<in> relations vpc then [(''color'', ''purple3'')]
                else [(''color'', ''purple3''), (''weight'', ''10''), (''style'', ''invis'')])"
  using assms by (simp add: edge_attrs_def py_gt_def Let_def level_ENI level_RTB color_ENI)

lemma edge_of_attrs:
  assumes "service_name src \<noteq> ''SUBN''" and "edge_attrs src tgt vpc = Inr attrs"
    and "v_id src = Inr si" and "v_id tgt = Inr ti"
  shows "edge (Some src) (Some tgt) vpc = Inr (Some (edge_stmt si ti attrs))"
  using assms by (simp add: edge_def)


section \<open>Claims about the edge rules\<close>


text \<open>
  C5. For a rendered relation (the source is not a subnet and both ids resolve) whose
  source and target types both have levels: if the source's level is greater than the
  target's, the statement carries \<open>constraint="False"\<close> and \<open>style="invis"\<close>; if it is
  smaller and neither the cost/security-group rule nor the missing interface-to-route-table
  rule applies, the statement carries the colour only.
\<close>

theorem edge_level_rule:
  assumes "service_name src \<noteq> ''SUBN''"
    and "level (service_name src) = Some ls" and "level (service_name tgt) = Some lt"
    and "v_id src = Inr si" and "v_id tgt = Inr ti"
  shows "(lt < ls \<longrightarrow>
           edge (Some src) (Some tgt) vpc =
             Inr (Some (edge_stmt si ti
               [(''color'', graphviz_color (service_name src)),
                (''constraint'', ''False''), (''style'', ''invis'')]))) \<and>
         (ls < lt \<and> \<not> (0 < cost_per_month src \<and> service_name tgt = ''SG'') \<and>
            \<not> (service_name src = ''ENI'' \<and> service_name tgt = ''RTB'' \<and> (si, ti) \<notin> relations vpc) \<longrightarrow>
           edge (Some src) (Some tgt) vpc =
             Inr (Some (edge_stmt si ti [(''color'', graphviz_color (service_name src))])))"
proof (intro conjI impI)
  assume "lt < ls"
  then show "edge (Some src) (Some tgt) vpc =
             Inr (Some (edge_stmt si ti
               [(''color'', graphviz_color (service_name src)),
                (''constraint'', ''False''), (''style'', ''invis'')]))"
    using assms by (simp add: edge_of_attrs edge_attrs_back)
next
  assume fwd: "ls < lt \<and> \<not> (0 < cost_per_month src \<and> service_name tgt = ''SG'') \<and>
            \<not> (service_name src = ''ENI'' \<and> service_name tgt = ''RTB'' \<and> (si, ti) \<notin> relations vpc)"
  have "edge_attrs src tgt vpc = Inr [(''color'', graphviz_color (service_name src))]"
  proof (cases "service_name src = ''ENI'' \<and> service_name tgt = ''RTB''")
    case True
    with fwd have "(si, ti) \<in> relations vpc" by simp
    with True assms show ?thesis
      by (simp add: edge_attrs_route_table color_ENI)
  next
    case False
    with fwd assms show ?thesis
      by (intro edge_attrs_plain) auto
  qed
  with assms show "edge (Some src) (Some tgt) vpc =
             Inr (Some (edge_stmt si ti [(''color'', graphviz_color (service_name src))]))"
    by (simp add: edge_of_attrs)
qed

theorem edge_level_rule_witness:
  "edge (Some ex_sg) (Some ex_ec2) ex_empty_vpc =
     Inr (Some (edge_stmt ''sg-1'' ''i-1''
       [(''color'', ''purple3''), (''constraint'', ''False''), (''style'', ''invis'')])) \<and>
   edge (Some ex_ec2) (Some ex_eni) ex_empty_vpc =
     Inr (Some (edge_stmt ''i-1'' ''eni-1'' [(''color'', ''orange'')]))"
proof -
  have ids: "v_id ex_sg = Inr ''sg-1''" "v_id ex_ec2 = Inr ''i-1''" "v_id ex_eni = Inr ''eni-1''"
    by (simp_all add: ex_sg_def ex_ec2_def ex_eni_def v_id_ex_service)
  have names: "service_name ex_sg = ''SG''" "service_name ex_ec2 = ''EC2''"
    "service_name ex_eni = ''ENI''"
    by (simp_all add: ex_sg_def ex_ec2_def ex_eni_def ex_service_def)
  have colors: "graphviz_color ''SG'' = ''purple3''" "graphviz_color ''EC2'' = ''orange''"
    by (simp_all add: graphviz_color_def NETWORK_def STORAGE_def)
  show ?thesis
    using edge_level_rule [of ex_sg 17 ex_ec2 13 "''sg-1''" "''i-1''" ex_empty_vpc]
      edge_level_rule [of ex_ec2 13 ex_eni 14 "''i-1''" "''eni-1''" ex_empty_vpc]
    by (simp add: ids names colors level_SG level_EC2 level_ENI)
qed

text \<open>
  C6. For a rendered relation whose target is a security group: if the source costs
  more than nothing per month, the statement carries \<open>constraint="False"\<close> and
  \<open>style="invis"\<close>; if the source costs nothing and is not below the security groups in
  the level table, the statement carries the colour only.
\<close>

theorem edge_cost_security_group_rule:
  assumes "service_name src \<noteq> ''SUBN''"
    and "level (service_name src) = Some ls" and "service_name tgt = ''SG''"
    and "v_id src = Inr si" and "v_id tgt = Inr ti"
  shows "(0 < cost_per_month src \<longrightarrow>
           edge (Some src) (Some tgt) vpc =
             Inr (Some (edge_stmt si ti
               [(''color'', graphviz_color (service_name src)),
                (''constraint'', ''False''), (''style'', ''invis'')]))) \<and>
         (cost_per_month src = 0 \<and> ls \<le> 17 \<longrightarrow>
           edge (Some src) (Some tgt) vpc =
             Inr (Some (edge_stmt si ti [(''color'', graphviz_color (service_name src))])))"
proof (intro conjI impI)
  assume "0 < cost_per_month src"
  then show "edge (Some src) (Some tgt) vpc =
             Inr (Some (edge_stmt si ti
               [(''color'', graphviz_color (service_name src)),
                (''constraint'', ''False''), (''style'', ''invis'')]))"
    using assms by (simp add: edge_of_attrs edge_attrs_cost_sg)
next
  assume free: "cost_per_month src = 0 \<and> ls \<le> 17"
  have "edge_attrs src tgt vpc = Inr [(''color'', graphviz_color (service_name src))]"
    using assms free by (intro edge_attrs_plain [where lt = 17]) (auto simp: level_SG)
  with assms show "edge (Some src) (Some tgt) vpc =
             Inr (Some (edge_stmt si ti [(''color'', graphviz_color (service_name src))]))"
    by (simp add: edge_of_attrs)
qed

theorem edge_cost_security_group_rule_witness:
  "0 < cost_per_month ex_ec2 \<and>
   edge (Some ex_ec2) (Some ex_sg) ex_empty_vpc =
     Inr (Some (edge_stmt ''i-1'' ''sg-1''
       [(''color'', ''orange''), (''constraint'', ''False''), (''style'', ''invis'')])) \<and>
   cost_per_month ex_ec2_free = 0 \<and>
   edge (Some ex_ec2_free) (Some ex_sg) ex_empty_vpc =
     Inr (Some (edge_stmt ''i-2'' ''sg-1'' [(''color'', ''orange'')]))"
proof -
  have ids: "v_id ex_sg = Inr ''sg-1''" "v_id ex_ec2 = Inr ''i-1''" "v_id ex_ec2_free = Inr ''i-2''"
    by (simp_all add: ex_sg_def ex_ec2_def ex_ec2_free_def v_id_ex_service)
  have names: "service_name ex_sg = ''SG''" "service_name ex_ec2 = ''EC2''"
    "service_name ex_ec2_free = ''EC2''"
    by (simp_all add: ex_sg_def ex_ec2_def ex_ec2_free_def ex_service_def)
  have costs: "0 < cost_per_month ex_ec2" "cost_per_month ex_ec2_free = 0"
    by (simp_all add: cost_per_month_def ex_ec2_def ex_ec2_free_def ex_service_def
        table_get_def EC2_COST_PER_TYPE_def)
  have color: "graphviz_color ''EC2'' = ''orange''"
    by (simp add: graphviz_color_def NETWORK_def STORAGE_def)
  show ?thesis
    using edge_cost_security_group_rule [of ex_ec2 13 ex_sg "''i-1''" "''sg-1''" ex_empty_vpc]
      edge_cost_security_group_rule [of ex_ec2_free 13 ex_sg "''i-2''" "''sg-1''" ex_empty_vpc]
    by (simp add: ids names costs color level_EC2)
qed

section \<open>Claims about the graph\<close>

text \<open>
  C7. The claim: inserting a relation whose source or target is \<open>None\<close> or the empty
  string leaves the relation set unchanged. The guard of \<open>_add_relation\<close> tests for
  \<open>None\<close> only, so a relation with an empty-string endpoint is stored.
\<close>

theorem add_relation_empty_string_counterexample:
  "relations (add_relation ex_empty_vpc (Some []) (Some ''sg-1'')) \<noteq> relations ex_empty_vpc"
  by (simp add: add_relation_def ex_empty_vpc_def)

text \<open>
  C7, amended. Inserting a relation whose source or target is \<open>None\<close> leaves the whole
  graph, and so the relation set, unchanged, and the call cannot raise; with two strings,
  empty or not, the pair is added to the relation set and nothing else changes.
\<close>

theorem add_relation_none_dropped:
  "(src = None \<or> trg = None \<longrightarrow> add_relation vpc src trg = vpc) \<and>
   (\<forall>s t. src = Some s \<and> trg = Some t \<longrightarrow>
      add_relation vpc src trg = vpc\<lparr>relations := insert (s, t) (relations vpc)\<rparr>)"
  by (auto simp: add_relation_def split: option.splits)

theorem add_relation_none_dropped_witness:
  "add_relation ex_empty_vpc None (Some ''sg-1'') = ex_empty_vpc \<and>
   add_relation ex_empty_vpc (Some ''i-1'') None = ex_empty_vpc \<and>
   relations (add_relation ex_empty_vpc (Some ''i-1'') (Some ''sg-1'')) = {(''i-1'', ''sg-1'')}"
  using add_relation_none_dropped [of None "Some ''sg-1''" ex_empty_vpc]
    add_relation_none_dropped [of "Some ''i-1''" None ex_empty_vpc]
    add_relation_none_dropped [of "Some ''i-1''" "Some ''sg-1''" ex_empty_vpc]
  by (simp add: ex_empty_vpc_def)

text \<open>
  C10. Indexing the graph with a key never raises: it yields \<open>None\<close> exactly when the key
  is not in the resource map, and a resource exactly when \<open>key in vpc\<close> holds.
\<close>

theorem vpc_getitem_total:
  "(vpc_getitem vpc key = None) = (\<not> vpc_contains vpc key) \<and>
   (\<exists>svc. vpc_getitem vpc key = Some svc) = vpc_contains vpc key"
proof -
  have "(map_of (services vpc) key = None) = (key \<notin> fst ` set (services vpc))"
    by (rule map_of_eq_None_iff)
  then show ?thesis
    by (auto simp: vpc_getitem_def vpc_contains_def)
qed

theorem vpc_getitem_total_witness:
  "vpc_getitem (ex_empty_vpc\<lparr>services := [(''sg-1'', ex_sg)]\<rparr>) ''sg-1'' = Some ex_sg \<and>
   vpc_contains (ex_empty_vpc\<lparr>services := [(''sg-1'', ex_sg)]\<rparr>) ''sg-1'' \<and>
   vpc_getitem (ex_empty_vpc\<lparr>services := [(''sg-1'', ex_sg)]\<rparr>) ''i-1'' = None \<and>
   \<not> vpc_contains (ex_empty_vpc\<lparr>services := [(''sg-1'', ex_sg)]\<rparr>) ''i-1''"
  using vpc_getitem_total [of "ex_empty_vpc\<lparr>services := [(''sg-1'', ex_sg)]\<rparr>" "''sg-1''"]
    vpc_getitem_total [of "ex_empty_vpc\<lparr>services := [(''sg-1'', ex_sg)]\<rparr>" "''i-1''"]
  by (simp add: vpc_getitem_def vpc_contains_def)

section \<open>The graph after rendering\<close>

lemma defaults_added_refl: "defaults_added m m"
  by (simp add: defaults_added_def)

lemma defaults_added_trans:
  "defaults_added m1 m2 \<Longrightarrow> defaults_added m2 m3 \<Longrightarrow> defaults_added m1 m3"
  unfolding defaults_added_def by metis

lemma defaults_added_getitem: "defaults_added m (snd (subnets_getitem m k))"
  by (auto simp: defaults_added_def subnets_getitem_def split: option.splits)

lemma defaults_added_tally_subnets: "defaults_added m (snd (tally_subnets ks (t, m)))"
proof (induction ks arbitrary: t m)
  case Nil
  show ?case by (simp add: defaults_added_refl)
next
  case (Cons k ks)
  show ?case
    using defaults_added_trans [OF defaults_added_getitem Cons.IH] by simp
qed

lemma defaults_added_tally_zones: "defaults_added m (snd (snd (tally_zones zs (a, t, m))))"
proof (induction zs arbitrary: a t m)
  case Nil
  show ?case by (simp add: defaults_added_refl)
next
  case (Cons z zs)
  obtain t' m' where tm: "tally_subnets (subnet_ids z) (t, m) = (t', m')"
    by (cases "tally_subnets (subnet_ids z) (t, m)")
  have "defaults_added m m'"
    using defaults_added_tally_subnets [of m "subnet_ids z" t] tm by simp
  moreover have "defaults_added m' (snd (snd (tally_zones zs (a @ service_ids z, t', m'))))"
    by (rule Cons.IH)
  ultimately show ?case
    using tm by (auto intro: defaults_added_trans)
qed

lemma only_defaults_added_refl: "only_defaults_added vpc vpc"
  unfolding only_defaults_added_def
  by (rule exI [of _ "subnets vpc"]) (simp add: defaults_added_refl)

lemma only_defaults_added_trans:
  assumes "only_defaults_added v1 v2" and "only_defaults_added v2 v3"
  shows "only_defaults_added v1 v3"
proof -
  from assms obtain m2 m3 where
    v2: "v2 = v1\<lparr>subnets := m2\<rparr>" and d2: "defaults_added (subnets v1) m2" and
    v3: "v3 = v2\<lparr>subnets := m3\<rparr>" and d3: "defaults_added (subnets v2) m3"
    unfolding only_defaults_added_def by blast
  have "v3 = v1\<lparr>subnets := m3\<rparr>" using v2 v3 by simp
  moreover have "defaults_added (subnets v1) m3"
    using d2 d3 v2 by (auto intro: defaults_added_trans)
  ultimately show ?thesis unfolding only_defaults_added_def by blast
qed

lemma only_defaults_added_update:
  "defaults_added (subnets vpc) m' \<Longrightarrow> only_defaults_added vpc (vpc\<lparr>subnets := m'\<rparr>)"
  unfolding only_defaults_added_def by blast

lemma gv_subnet_frame: "only_defaults_added vpc (snd (gv_subnet conn ss sn_i subnet vpc))"
  by (auto simp: gv_subnet_def Let_def only_defaults_added_refl
      intro!: only_defaults_added_update defaults_added_getitem
      split: option.splits sum.splits)

lemma gv_subnets_frame: "only_defaults_added vpc (snd (gv_subnets conn ss subnets_list sn_i vpc))"
proof (induction subnets_list arbitrary: sn_i vpc)
  case Nil
  show ?case by (simp add: only_defaults_added_refl)
next
  case (Cons s rest)
  have step: "only_defaults_added vpc (snd (gv_subnet conn ss sn_i s vpc))"
    by (rule gv_subnet_frame)
  show ?case
  proof (cases "gv_subnet conn ss sn_i s vpc")
    case (Pair res vpc1)
    with step have s1: "only_defaults_added vpc vpc1" by simp
    show ?thesis
    proof (cases res)
      case (Inl e)
      with Pair s1 show ?thesis by simp
    next
      case (Inr sn)
      have "only_defaults_added vpc1 (snd (gv_subnets conn ss rest (Suc sn_i) vpc1))"
        by (rule Cons.IH)
      then have "only_defaults_added vpc (snd (gv_subnets conn ss rest (Suc sn_i) vpc1))"
        using s1 by (blast intro: only_defaults_added_trans)
      with Pair Inr show ?thesis
        by (auto split: prod.splits sum.splits)
    qed
  qed
qed

lemma gv_zone_frame: "only_defaults_added vpc (snd (gv_zone conn ss sa az_i sn_i kz vpc))"
proof -
  have "\<And>xs. only_defaults_added vpc (snd (gv_subnets conn ss xs sn_i vpc))"
    by (rule gv_subnets_frame)
  then show ?thesis
    by (auto simp: gv_zone_def only_defaults_added_refl split: sum.splits prod.splits)
      (metis snd_conv)+
qed

lemma gv_zones_frame: "only_defaults_added vpc (snd (gv_zones conn ss sa kzs az_i sn_i vpc))"
proof (induction kzs arbitrary: az_i sn_i vpc)
  case Nil
  show ?case by (simp add: only_defaults_added_refl)
next
  case (Cons kz rest)
  have step: "only_defaults_added vpc (snd (gv_zone conn ss sa az_i sn_i kz vpc))"
    by (rule gv_zone_frame)
  show ?case
  proof (cases "gv_zone conn ss sa az_i sn_i kz vpc")
    case (Pair res vpc1)
    with step have s1: "only_defaults_added vpc vpc1" by simp
    show ?thesis
    proof (cases res)
      case (Inl e)
      with Pair s1 show ?thesis by simp
    next
      case (Inr azp)
      obtain az sn_j where azp: "azp = (az, sn_j)" by (cases azp)
      have "only_defaults_added vpc1 (snd (gv_zones conn ss sa rest (Suc az_i) sn_j vpc1))"
        by (rule Cons.IH)
      then have "only_defaults_added vpc (snd (gv_zones conn ss sa rest (Suc az_i) sn_j vpc1))"
        using s1 by (blast intro: only_defaults_added_trans)
      with Pair Inr azp show ?thesis
        by (auto split: prod.splits sum.splits)
    qed
  qed
qed

lemma to_graphviz_only_defaults_added: "only_defaults_added vpc (snd (to_graphviz vpc))"
proof (cases "connected_ids vpc")
  case (Inl e)
  then show ?thesis by (simp add: to_graphviz_def only_defaults_added_refl)
next
  case (Inr conn)
  define m1 where "m1 = snd (snd (tally_zones (map snd (azs vpc)) ([], [], subnets vpc)))"
  define vpc1 where "vpc1 = vpc\<lparr>subnets := m1\<rparr>"
  have s1: "only_defaults_added vpc vpc1"
    unfolding vpc1_def m1_def
    by (intro only_defaults_added_update defaults_added_tally_zones)
  have s2: "\<And>ss sa kzs. only_defaults_added vpc (snd (gv_zones conn ss sa kzs 0 0 vpc1))"
    using s1 gv_zones_frame by (blast intro: only_defaults_added_trans)
  show ?thesis
    using Inr s1 s2
    by (auto simp: to_graphviz_def Let_def vpc1_def [symmetric] m1_def [symmetric]
        split: sum.splits prod.splits) (metis snd_conv)+
qed

text \<open>
  C8. The claim: rendering leaves the resource map, the relation set, the zone map and
  the subnet-membership map identical. The last part fails: \<open>vpc.subnets\<close> is a
  \<open>defaultdict\<close>, and reading the members of a subnet that no resource lives in stores an
  empty list under its id. Here the rendering succeeds and the map has changed.
\<close>

theorem to_graphviz_subnets_changed_counterexample:
  "\<not> isl (fst (to_graphviz ex_empty_subnet_vpc)) \<and>
   subnets (snd (to_graphviz ex_empty_subnet_vpc)) \<noteq> subnets ex_empty_subnet_vpc"
proof -
  have ok: "\<not> isl (fst (to_graphviz ex_empty_subnet_vpc))"
    by code_simp
  have after: "subnets (snd (to_graphviz ex_empty_subnet_vpc)) ''subnet-1'' = Some []"
    by code_simp
  have before: "subnets ex_empty_subnet_vpc ''subnet-1'' = None"
    by (simp add: ex_empty_subnet_vpc_def ex_empty_vpc_def)
  from after before have "subnets (snd (to_graphviz ex_empty_subnet_vpc)) \<noteq> subnets ex_empty_subnet_vpc"
    by (metis option.distinct(1))
  with ok show ?thesis by simp
qed

text \<open>
  C8, amended. Whether rendering succeeds or raises, the graph it leaves has the same
  identity fields, resource map, relation set and zone map; every entry of the
  subnet-membership map is as before, and a key that had no entry either still has none or
  now holds the empty list, which is what reading it gave before.
\<close>

theorem to_graphviz_frame:
  "vpc_id (snd (to_graphviz vpc)) = vpc_id vpc \<and>
   vpc_name (snd (to_graphviz vpc)) = vpc_name vpc \<and>
   cidr_block (snd (to_graphviz vpc)) = cidr_block vpc \<and>
   services (snd (to_graphviz vpc)) = services vpc \<and>
   relations (snd (to_graphviz vpc)) = relations vpc \<and>
   azs (snd (to_graphviz vpc)) = azs vpc \<and>
   (\<forall>k. subnets (snd (to_graphviz vpc)) k = subnets vpc k \<or>
        (subnets vpc k = None \<and> subnets (snd (to_graphviz vpc)) k = Some []))"
proof -
  obtain m' where eq: "snd (to_graphviz vpc) = vpc\<lparr>subnets := m'\<rparr>"
    and d: "defaults_added (subnets vpc) m'"
    using to_graphviz_only_defaults_added [of vpc] unfolding only_defaults_added_def by blast
  from d have "\<forall>k. m' k = subnets vpc k \<or> (subnets vpc k = None \<and> m' k = Some [])"
    by (simp add: defaults_added_def)
  then show ?thesis
    by (simp add: eq)
qed

section \<open>Containment\<close>

lemma subnets_getitem_fst: "fst (subnets_getitem m k) = subnets_read m k"
  by (simp add: subnets_getitem_def subnets_read_def split: option.splits)

lemma subnets_read_getitem: "subnets_read (snd (subnets_getitem m k)) = subnets_read m"
  by (rule ext) (simp add: subnets_getitem_def subnets_read_def split: option.splits)

lemma subnets_read_tally_subnets: "subnets_read (snd (tally_subnets ks (t, m))) = subnets_read m"
  by (induction ks arbitrary: t m) (simp_all add: subnets_read_getitem)

lemma tally_subnets_fst:
  "fst (tally_subnets ks (t, m)) = t @ concat (map (subnets_read m) ks)"
  by (induction ks arbitrary: t m) (simp_all add: subnets_read_getitem subnets_getitem_fst)

lemma tally_zones_az:
  "fst (tally_zones zs (a, t, m)) = a @ concat (map service_ids zs)"
proof (induction zs arbitrary: a t m)
  case Nil
  show ?case by simp
next
  case (Cons z zs)
  obtain t' m' where tm: "tally_subnets (subnet_ids z) (t, m) = (t', m')"
    by (cases "tally_subnets (subnet_ids z) (t, m)")
  show ?case
    using Cons.IH [of "a @ service_ids z" t' m'] tm by simp
qed

lemma tally_zones_sn:
  "fst (snd (tally_zones zs (a, t, m))) =
     t @ concat (map (subnets_read m) (concat (map subnet_ids zs)))"
proof (induction zs arbitrary: a t m)
  case Nil
  show ?case by simp
next
  case (Cons z zs)
  obtain t' m' where tm: "tally_subnets (subnet_ids z) (t, m) = (t', m')"
    by (cases "tally_subnets (subnet_ids z) (t, m)")
  have t': "t' = t @ concat (map (subnets_read m) (subnet_ids z))"
    using tally_subnets_fst [of "subnet_ids z" t m] tm by simp
  have m': "subnets_read m' = subnets_read m"
    using subnets_read_tally_subnets [of "subnet_ids z" t m] tm by simp
  show ?case
    using Cons.IH [of "a @ service_ids z" t' m'] tm by (simp add: t' m')
qed

lemma az_tally_of_eq:
  "az_tally_of vpc = concat (map (\<lambda>kz. service_ids (snd kz)) (azs vpc))"
  by (simp add: az_tally_of_def tally_zones_az comp_def)

lemma sn_tally_of_eq:
  "sn_tally_of vpc = concat (map (subnets_read (subnets vpc)) (listed_subnets vpc))"
  by (simp add: sn_tally_of_def tally_zones_sn listed_subnets_def map_concat comp_def)

lemma singles_iff: "x \<in> singles t \<longleftrightarrow> count_list t x = 1"
proof
  assume "x \<in> singles t"
  then show "count_list t x = 1" by (simp add: singles_def)
next
  assume c: "count_list t x = 1"
  then have "x \<in> set t" by (metis count_list_0_iff zero_neq_one)
  with c show "x \<in> singles t" by (simp add: singles_def)
qed

lemma count_list_distinct:
  "distinct xs \<Longrightarrow> count_list xs x = (if x \<in> set xs then 1 else 0)"
  by (induction xs) auto

lemma count_list_concat_distinct:
  assumes "\<forall>xs \<in> set xss. distinct xs"
  shows "count_list (concat xss) x = length (filter (\<lambda>xs. x \<in> set xs) xss)"
  using assms
proof (induction xss)
  case Nil
  show ?case by simp
next
  case (Cons xs xss)
  have "distinct xs" using Cons.prems by simp
  then have "count_list xs x = (if x \<in> set xs then 1 else 0)"
    by (rule count_list_distinct)
  with Cons show ?case by simp
qed

lemma length_filter_one_distinct:
  assumes "distinct ks"
  shows "length (filter P ks) = 1 \<longleftrightarrow> (\<exists>!k. k \<in> set ks \<and> P k)"
proof -
  have d: "distinct (filter P ks)" using assms by simp
  have len: "length (filter P ks) = card {k \<in> set ks. P k}"
    using distinct_card [OF d] by simp
  show ?thesis
  proof
    assume "length (filter P ks) = 1"
    with len have "card {k \<in> set ks. P k} = 1" by simp
    then obtain k where k: "{k \<in> set ks. P k} = {k}"
      by (auto simp: card_1_singleton_iff)
    then have "k \<in> set ks \<and> P k" by blast
    moreover have "\<And>j. j \<in> set ks \<and> P j \<Longrightarrow> j = k" using k by blast
    ultimately show "\<exists>!k. k \<in> set ks \<and> P k" by blast
  next
    assume "\<exists>!k. k \<in> set ks \<and> P k"
    then obtain k where "k \<in> set ks \<and> P k" and u: "\<And>j. j \<in> set ks \<and> P j \<Longrightarrow> j = k"
      by blast
    then have "{k \<in> set ks. P k} = {k}" by blast
    with len show "length (filter P ks) = 1" by simp
  qed
qed

lemma count_one_keys:
  assumes "distinct ks" and "\<forall>k \<in> set ks. distinct (f k)"
  shows "count_list (concat (map f ks)) x = 1 \<longleftrightarrow> (\<exists>!k. k \<in> set ks \<and> x \<in> set (f k))"
proof -
  have "count_list (concat (map f ks)) x = length (filter (\<lambda>xs. x \<in> set xs) (map f ks))"
    using assms(2) by (intro count_list_concat_distinct) auto
  also have "\<dots> = length (filter (\<lambda>k. x \<in> set (f k)) ks)"
    by (simp add: filter_map comp_def)
  finally show ?thesis
    using length_filter_one_distinct [OF assms(1), of "\<lambda>k. x \<in> set (f k)"] by simp
qed


lemma single_subnet_iff:
  assumes "distinct (listed_subnets vpc)"
    and "\<forall>k \<in> set (listed_subnets vpc). distinct (subnets_read (subnets vpc) k)"
  shows "x \<in> single_subnet vpc \<longleftrightarrow>
           (\<exists>!k. k \<in> set (listed_subnets vpc) \<and> x \<in> set (subnets_read (subnets vpc) k))"
  using count_one_keys [OF assms, of x]
  by (simp add: single_subnet_def single_subnet_of_def singles_iff sn_tally_of_eq)

lemma zone_count_iff:
  assumes "distinct (map fst (azs vpc))"
    and "\<forall>kz \<in> set (azs vpc). distinct (service_ids (snd kz))"
  shows "count_list (az_tally_of vpc) x = 1 \<longleftrightarrow>
           (\<exists>!zk. \<exists>z. (zk, z) \<in> set (azs vpc) \<and> x \<in> set (service_ids z))"
proof -
  have dz: "distinct (azs vpc)" using assms(1) by (rule distinct_map [THEN iffD1, THEN conjunct1])
  have inj: "inj_on fst (set (azs vpc))" using assms(1) by (simp add: distinct_map)
  have "count_list (az_tally_of vpc) x = 1 \<longleftrightarrow>
          (\<exists>!kz. kz \<in> set (azs vpc) \<and> x \<in> set (service_ids (snd kz)))"
    using count_one_keys [OF dz assms(2), of x] by (simp add: az_tally_of_eq)
  also have "\<dots> \<longleftrightarrow> (\<exists>!zk. \<exists>z. (zk, z) \<in> set (azs vpc) \<and> x \<in> set (service_ids z))"
  proof
    assume "\<exists>!kz. kz \<in> set (azs vpc) \<and> x \<in> set (service_ids (snd kz))"
    then obtain kz where kz: "kz \<in> set (azs vpc)" "x \<in> set (service_ids (snd kz))"
      and u: "\<And>j. j \<in> set (azs vpc) \<and> x \<in> set (service_ids (snd j)) \<Longrightarrow> j = kz"
      by blast
    show "\<exists>!zk. \<exists>z. (zk, z) \<in> set (azs vpc) \<and> x \<in> set (service_ids z)"
    proof (rule ex1I [of _ "fst kz"])
      show "\<exists>z. (fst kz, z) \<in> set (azs vpc) \<and> x \<in> set (service_ids z)"
        using kz by (intro exI [of _ "snd kz"]) simp
    next
      fix zk assume "\<exists>z. (zk, z) \<in> set (azs vpc) \<and> x \<in> set (service_ids z)"
      then obtain z where "(zk, z) \<in> set (azs vpc) \<and> x \<in> set (service_ids (snd (zk, z)))" by auto
      then have "(zk, z) = kz" by (rule u)
      then show "zk = fst kz" by auto
    qed
  next
    assume "\<exists>!zk. \<exists>z. (zk, z) \<in> set (azs vpc) \<and> x \<in> set (service_ids z)"
    then obtain zk z where z: "(zk, z) \<in> set (azs vpc)" "x \<in> set (service_ids z)"
      and u: "\<And>j y. (j, y) \<in> set (azs vpc) \<and> x \<in> set (service_ids y) \<Longrightarrow> j = zk"
      by blast
    show "\<exists>!kz. kz \<in> set (azs vpc) \<and> x \<in> set (service_ids (snd kz))"
    proof (rule ex1I [of _ "(zk, z)"])
      show "(zk, z) \<in> set (azs vpc) \<and> x \<in> set (service_ids (snd (zk, z)))"
        using z by simp
    next
      fix kz assume a: "kz \<in> set (azs vpc) \<and> x \<in> set (service_ids (snd kz))"
      then have "fst kz = zk" using u [of "fst kz" "snd kz"] by simp
      then have "fst kz = fst (zk, z)" by simp
      with inj a z(1) show "kz = (zk, z)" by (meson inj_onD)
    qed
  qed
  finally show ?thesis .
qed

lemma single_az_iff:
  "x \<in> single_az vpc \<longleftrightarrow> count_list (az_tally_of vpc) x = 1 \<and> x \<notin> single_subnet vpc"
proof -
  have "count_list (az_tally_of vpc) x = 1 \<Longrightarrow> x \<in> set (az_tally_of vpc)"
    by (metis count_list_0_iff zero_neq_one)
  then show ?thesis
    by (auto simp: single_az_def single_az_of_def single_subnet_def)
qed

text \<open>
  C3. The claim: a resource id is single_subnet exactly when it is in exactly one
  subnet's membership set, single_az exactly when it is in exactly one zone and not
  single_subnet, and a resource present in two zones is neither, whatever its subnet
  count. The last part fails: the subnet tally does not look at zones, so a resource
  recorded in two zones and in one subnet is single_subnet, and contained.
\<close>

theorem containment_two_zones_counterexample:
  "''lb-1'' \<in> set (service_ids (snd (azs ex_two_zone_vpc ! 0))) \<and>
   ''lb-1'' \<in> set (service_ids (snd (azs ex_two_zone_vpc ! 1))) \<and>
   ''lb-1'' \<in> single_subnet ex_two_zone_vpc \<and>
   ''lb-1'' \<in> contained_ids ex_two_zone_vpc"
  by code_simp

text \<open>
  C3, amended. In a graph whose lists are sets (zone names are unique, no zone lists a
  resource twice, every subnet is listed by one zone once, no subnet lists a member
  twice): a resource id is single_subnet exactly when exactly one subnet of the zones has
  it as a member, whatever its zones; it is single_az exactly when exactly one zone lists
  it and it is not single_subnet; the contained set is the union of the two.
\<close>

theorem containment_classes:
  assumes "distinct (map fst (azs vpc))"
    and "\<forall>kz \<in> set (azs vpc). distinct (service_ids (snd kz))"
    and "distinct (listed_subnets vpc)"
    and "\<forall>k \<in> set (listed_subnets vpc). distinct (subnets_read (subnets vpc) k)"
  shows "(x \<in> single_subnet vpc \<longleftrightarrow>
            (\<exists>!k. k \<in> set (listed_subnets vpc) \<and> x \<in> set (subnets_read (subnets vpc) k))) \<and>
         (x \<in> single_az vpc \<longleftrightarrow>
            (\<exists>!zk. \<exists>z. (zk, z) \<in> set (azs vpc) \<and> x \<in> set (service_ids z)) \<and>
            x \<notin> single_subnet vpc) \<and>
         contained_ids vpc = single_subnet vpc \<union> single_az vpc"
proof (intro conjI)
  show "x \<in> single_subnet vpc \<longleftrightarrow>
          (\<exists>!k. k \<in> set (listed_subnets vpc) \<and> x \<in> set (subnets_read (subnets vpc) k))"
    by (rule single_subnet_iff [OF assms(3,4)])
  show "x \<in> single_az vpc \<longleftrightarrow>
          (\<exists>!zk. \<exists>z. (zk, z) \<in> set (azs vpc) \<and> x \<in> set (service_ids z)) \<and>
          x \<notin> single_subnet vpc"
    unfolding single_az_iff zone_count_iff [OF assms(1,2)] by (rule refl)
  show "contained_ids vpc = single_subnet vpc \<union> single_az vpc"
    by (simp add: contained_ids_def contained_of_def single_subnet_def single_az_def)
qed

theorem containment_classes_witness:
  "''db-1'' \<in> single_az ex_one_zone_vpc \<and> ''db-1'' \<notin> single_subnet ex_one_zone_vpc \<and>
   ''i-1'' \<in> single_subnet ex_one_zone_vpc \<and> ''i-1'' \<notin> single_az ex_one_zone_vpc \<and>
   (\<exists>!zk. \<exists>z. (zk, z) \<in> set (azs ex_one_zone_vpc) \<and> ''db-1'' \<in> set (service_ids z)) \<and>
   (\<exists>!k. k \<in> set (listed_subnets ex_one_zone_vpc) \<and>
         ''i-1'' \<in> set (subnets_read (subnets ex_one_zone_vpc) k)) \<and>
   contained_ids ex_one_zone_vpc = single_subnet ex_one_zone_vpc \<union> single_az ex_one_zone_vpc"
proof -
  have h1: "distinct (map fst (azs ex_one_zone_vpc))"
    by code_simp
  have h2: "\<forall>kz \<in> set (azs ex_one_zone_vpc). distinct (service_ids (snd kz))"
    by code_simp
  have h3: "distinct (listed_subnets ex_one_zone_vpc)"
    by code_simp
  have h4: "\<forall>k \<in> set (listed_subnets ex_one_zone_vpc).
              distinct (subnets_read (subnets ex_one_zone_vpc) k)"
    by code_simp
  have db: "''db-1'' \<in> single_az ex_one_zone_vpc"
    by code_simp
  have i1: "''i-1'' \<in> single_subnet ex_one_zone_vpc"
    by code_simp
  show ?thesis
    using containment_classes [OF h1 h2 h3 h4, of "''db-1''"]
      containment_classes [OF h1 h2 h3 h4, of "''i-1''"] db i1
    by blast
qed

section \<open>Order of the rendered lists\<close>

lemma map_err_Inr:
  "map_err f xs = Inr ys \<Longrightarrow> ys = map (\<lambda>x. projr (f x)) xs"
proof (induction xs arbitrary: ys)
  case Nil
  then show ?case by simp
next
  case (Cons x xs)
  then show ?case
    by (auto split: sum.splits)
qed


lemma only_defaults_added_services:
  "only_defaults_added vpc vpc' \<Longrightarrow> services vpc' = services vpc"
  by (auto simp: only_defaults_added_def)

lemma only_defaults_added_getitem:
  "only_defaults_added vpc vpc' \<Longrightarrow> vpc_getitem vpc' = vpc_getitem vpc"
  by (rule ext) (auto simp: only_defaults_added_def vpc_getitem_def)





lemma to_graphviz_Inr:
  assumes "to_graphviz vpc = (Inr ctx, vpc')"
  shows "\<exists>conn (r::routing) gvazs edges.
           connected_ids vpc = Inr conn \<and>
           route_services conn (contained_ids vpc) (map snd (services vpc)) empty_routing = Inr r \<and>
           gv_zones conn (single_subnet vpc) (single_az vpc) (sort_key fst (azs vpc)) 0 0 (tallied vpc)
             = (Inr gvazs, vpc') \<and>
           output_edges vpc' (enis r) (rtbs r) = Inr edges \<and>
           ctx = \<lparr>ctx_vpc_name = vpc_name vpc' @ [CHR 0x5C, CHR ''n''] @ vpc_id vpc'
                                     @ [CHR 0x5C, CHR ''n''] @ cidr_block vpc',
                  ctx_route53_services = route53_services r,
                  ctx_top_services = top_services r,
                  ctx_azs = gvazs,
                  ctx_bottom_services = bottom_services r,
                  ctx_nw_services = nw_services r,
                  ctx_svc_types = ranks r,
                  ctx_edges = edges\<rparr>"
  using assms
  unfolding to_graphviz_def Let_def tallied_def contained_ids_def single_subnet_def single_az_def
    az_tally_of_def sn_tally_of_def
  by (auto split: sum.splits prod.splits)





section \<open>The interface-to-route-table edges\<close>

lemma graphviz_id_no_space: "CHR '' '' \<notin> set (graphviz_id s)"
  by (induction s) (auto simp: graphviz_id_def translate_char_def)

lemma no_space_split:
  assumes "CHR '' '' \<notin> set x" and "CHR '' '' \<notin> set y"
    and "prefix (x @ CHR '' '' # r) (y @ CHR '' '' # t)"
  shows "x = y \<and> prefix r t"
  using assms
proof (induction x arbitrary: y)
  case Nil
  then show ?case by (cases y) auto
next
  case (Cons a x)
  then show ?case by (cases y) auto
qed

lemma edge_stmt_head: "edge_stmt si ti attrs = edge_head si ti @ render_attrs attrs @ '']''"
  by (simp add: edge_stmt_def edge_head_def)

lemma prefix_edge_head:
  assumes "prefix (edge_head i j) (edge_stmt a b attrs)"
  shows "graphviz_id a = graphviz_id i \<and> graphviz_id b = graphviz_id j"
proof -
  have p: "prefix (graphviz_id i @ CHR '' '' # (''-> '' @ graphviz_id j @ '' [''))
                  (graphviz_id a @ CHR '' '' # (''-> '' @ graphviz_id b @ '' ['' @ render_attrs attrs @ '']''))"
    using assms by (simp add: edge_head_def edge_stmt_def)
  from no_space_split [OF graphviz_id_no_space graphviz_id_no_space p]
  have a: "graphviz_id i = graphviz_id a"
    and q: "prefix (''-> '' @ graphviz_id j @ '' ['') (''-> '' @ graphviz_id b @ '' ['' @ render_attrs attrs @ '']'')"
    by simp_all
  from q have "prefix (graphviz_id j @ CHR '' '' # ''['') (graphviz_id b @ CHR '' '' # (''['' @ render_attrs attrs @ '']''))"
    by simp
  from no_space_split [OF graphviz_id_no_space graphviz_id_no_space this]
  have "graphviz_id j = graphviz_id b" by simp
  with a show ?thesis by simp
qed

lemma prefix_edge_head_self: "prefix (edge_head i j) (edge_stmt i j attrs)"
  by (simp add: edge_stmt_head)

lemma edge_attrs_subnets_update [simp]:
  "edge_attrs src tgt (vpc\<lparr>subnets := m\<rparr>) = edge_attrs src tgt vpc"
  by (simp add: edge_attrs_def Let_def cong: sum.case_cong if_cong)

lemma edge_subnets_update [simp]: "edge a b (vpc\<lparr>subnets := m\<rparr>) = edge a b vpc"
  by (simp add: edge_def cong: option.case_cong if_cong)

lemma relation_edges_subnets_update [simp]:
  "relation_edges (vpc\<lparr>subnets := m\<rparr>) = relation_edges vpc"
  by (simp add: relation_edges_def vpc_getitem_def vpc_contains_def)

lemma eni_rtb_edges_subnets_update [simp]:
  "eni_rtb_edges (vpc\<lparr>subnets := m\<rparr>) es rs = eni_rtb_edges vpc es rs"
  by (simp add: eni_rtb_edges_def vpc_getitem_def)

lemma output_edges_subnets_update [simp]:
  "output_edges (vpc\<lparr>subnets := m\<rparr>) es rs = output_edges vpc es rs"
  by (simp add: output_edges_def cong: sum.case_cong)


lemma not_none_append: "not_none (xs @ ys) = not_none xs @ not_none ys"
  by (simp add: not_none_def)

lemma not_none_Cons:
  "not_none (x # xs) = (case x of None \<Rightarrow> [] | Some y \<Rightarrow> [y]) @ not_none xs"
  by (simp add: not_none_def)

text \<open>Among the statements that a successful comprehension over a duplicate-free list
  yields, the ones selected by \<open>P\<close> when only one element can yield such a statement.\<close>

lemma filter_single_source:
  assumes "map_err f xs = Inr ys" and "distinct xs"
    and "x0 \<in> set xs \<Longrightarrow> f x0 = Inr (Some s0) \<and> P s0"
    and "\<And>x s. x \<in> set xs \<Longrightarrow> f x = Inr (Some s) \<Longrightarrow> P s \<Longrightarrow> x = x0"
  shows "filter P (not_none ys) = (if x0 \<in> set xs then [s0] else [])"
  using assms
proof (induction xs arbitrary: ys)
  case Nil
  then show ?case by (simp add: not_none_def)
next
  case (Cons x xs)
  from Cons.prems(1) obtain y ys' where fx: "f x = Inr y" and rest: "map_err f xs = Inr ys'"
    and ys: "ys = y # ys'"
    by (auto split: sum.splits)
  have d: "distinct xs" and nx: "x \<notin> set xs" using Cons.prems(2) by simp_all
  show ?case
  proof (cases "x = x0")
    case True
    have "f x0 = Inr (Some s0) \<and> P s0" using Cons.prems(3) True by simp
    with fx True have y: "y = Some s0" and p: "P s0" by simp_all
    have none: "filter P (not_none ys') = (if x0 \<in> set xs then [s0] else [])"
    proof (rule Cons.IH [OF rest d])
      assume "x0 \<in> set xs"
      with nx True show "f x0 = Inr (Some s0) \<and> P s0" by simp
    next
      fix z s assume "z \<in> set xs" "f z = Inr (Some s)" "P s"
      then show "z = x0" using Cons.prems(4) by simp
    qed
    with nx True have "filter P (not_none ys') = []" by simp
    with y p ys True show ?thesis by (simp add: not_none_Cons)
  next
    case False
    have ih: "filter P (not_none ys') = (if x0 \<in> set xs then [s0] else [])"
    proof (rule Cons.IH [OF rest d])
      assume "x0 \<in> set xs"
      then show "f x0 = Inr (Some s0) \<and> P s0" using Cons.prems(3) by simp
    next
      fix z s assume "z \<in> set xs" "f z = Inr (Some s)" "P s"
      then show "z = x0" using Cons.prems(4) by simp
    qed
    have "filter P (case y of None \<Rightarrow> [] | Some s \<Rightarrow> [s]) = []"
    proof (cases y)
      case None
      then show ?thesis by simp
    next
      case (Some s)
      have "\<not> P s"
      proof
        assume "P s"
        with fx Some have "x = x0" using Cons.prems(4) [of x s] by simp
        with False show False by simp
      qed
      with Some show ?thesis by simp
    qed
    with ih ys False show ?thesis by (simp add: not_none_Cons)
  qed
qed

lemma edge_Some_stmt:
  assumes "edge a b vpc = Inr (Some s)"
  shows "\<exists>sa sb ia ib attrs. a = Some sa \<and> b = Some sb \<and> v_id sa = Inr ia \<and> v_id sb = Inr ib \<and>
           s = edge_stmt ia ib attrs"
  using assms by (auto simp: edge_def split: option.splits if_splits sum.splits)

lemma gv_node_id_Inr: "v_id v = Inr i \<Longrightarrow> gv_node_id v = graphviz_id i"
  by (simp add: gv_node_id_def)

lemma node_id_unique:
  assumes "distinct (map (\<lambda>kv. gv_node_id (snd kv)) svcs)"
    and "(a, sa) \<in> set svcs" and "(b, sb) \<in> set svcs"
    and "gv_node_id sa = gv_node_id sb"
  shows "a = b \<and> sa = sb"
proof -
  have "inj_on (\<lambda>kv. gv_node_id (snd kv)) (set svcs)"
    using assms(1) by (simp add: distinct_map)
  from inj_onD [OF this _ assms(2,3)] assms(4) show ?thesis by simp
qed

lemma map_of_key:
  "distinct (map fst svcs) \<Longrightarrow> (map_of svcs k = Some v) = ((k, v) \<in> set svcs)"
  by (auto dest: map_of_SomeD)

lemma add_connected_mono: "add_connected vs c = Inr c' \<Longrightarrow> c \<subseteq> c'"
proof (induction vs arbitrary: c)
  case Nil
  then show ?case by simp
next
  case (Cons v vs)
  from Cons.prems obtain c1 c2 where
    a: "(if service_name v \<in> set STORAGE \<or> service_name v \<in> set COMPUTE
         then add_id v c else Inr c) = Inr c1" and
    b: "(if service_name v = ''HZ'' then add_id v c1 else Inr c1) = Inr c2" and
    r: "add_connected vs c2 = Inr c'"
    by (auto split: sum.splits)
  from a have "c \<subseteq> c1" by (auto simp: add_id_def split: if_splits sum.splits)
  moreover from b have "c1 \<subseteq> c2" by (auto simp: add_id_def split: if_splits sum.splits)
  moreover from Cons.IH [OF r] have "c2 \<subseteq> c'" .
  ultimately show ?case by blast
qed

lemma relation_ends_connected: "connected_ids vpc = Inr conn \<Longrightarrow> relation_ends vpc \<subseteq> conn"
  unfolding connected_ids_def by (rule add_connected_mono)

lemma place_shared_keeps:
  "place_shared conn cont v i nv r = Inr r' \<Longrightarrow>
     enis r' = enis r \<and> rtbs r' = rtbs r \<and> ranks r' = ranks r"
  by (auto simp: place_shared_def Let_def split: sum.splits if_splits)

lemma route_service_enis:
  assumes "route_service conn cont v r = Inr r'"
  shows "\<exists>i. v_id v = Inr i \<and>
           enis r' = enis r @ (if service_name v = ''ENI'' \<and> i \<in> conn then [i] else []) \<and>
           rtbs r' = rtbs r @ (if service_name v = ''RTB'' \<and> i \<in> conn then [i] else [])"
proof -
  from assms obtain nv i r1 where i: "v_id v = Inr i"
    and p: "place_shared conn cont v i nv r = Inr r1" and r': "r' = note_ranks conn v i r1"
    by (auto simp: route_service_def split: sum.splits)
  from place_shared_keeps [OF p] r' i show ?thesis
    by (auto simp: note_ranks_def Let_def)
qed

lemma route_services_enis:
  assumes "route_services conn cont vs r = Inr r'"
  shows "(\<forall>v \<in> set vs. \<exists>i. v_id v = Inr i) \<and>
         enis r' = enis r @ map (\<lambda>v. projr (v_id v))
                     (filter (\<lambda>v. service_name v = ''ENI'' \<and> projr (v_id v) \<in> conn) vs) \<and>
         rtbs r' = rtbs r @ map (\<lambda>v. projr (v_id v))
                     (filter (\<lambda>v. service_name v = ''RTB'' \<and> projr (v_id v) \<in> conn) vs)"
  using assms
proof (induction vs arbitrary: r)
  case Nil
  then show ?case by simp
next
  case (Cons v vs)
  from Cons.prems obtain r1 where a: "route_service conn cont v r = Inr r1"
    and b: "route_services conn cont vs r1 = Inr r'"
    by (auto split: sum.splits)
  from route_service_enis [OF a] obtain i where i: "v_id v = Inr i"
    and e: "enis r1 = enis r @ (if service_name v = ''ENI'' \<and> i \<in> conn then [i] else [])"
    and t: "rtbs r1 = rtbs r @ (if service_name v = ''RTB'' \<and> i \<in> conn then [i] else [])"
    by blast
  from Cons.IH [OF b] i e t show ?case by auto
qed

lemma distinct_map_filter_ids:
  assumes "distinct (map g xs)"
    and "\<And>x y. x \<in> set xs \<Longrightarrow> y \<in> set xs \<Longrightarrow> f x = f y \<Longrightarrow> g x = g y"
  shows "distinct (map f (filter Q xs))"
proof -
  have dx: "distinct xs" and inj: "inj_on g (set xs)"
    using assms(1) by (simp_all add: distinct_map)
  have "inj_on f (set (filter Q xs))"
  proof (rule inj_onI)
    fix x y assume x: "x \<in> set (filter Q xs)" and y: "y \<in> set (filter Q xs)" and e: "f x = f y"
    from x y have xs: "x \<in> set xs" "y \<in> set xs" by simp_all
    with e have "g x = g y" by (rule assms(2) [rotated 2])
    from inj_onD [OF inj this xs] show "x = y" .
  qed
  moreover have "distinct (filter Q xs)" using dx by simp
  ultimately show ?thesis by (simp only: distinct_map simp_thms)
qed

text \<open>
  C1. The claim: for an interface and a route table that are both in the resource map
  and both connected, the output contains exactly one edge statement for the pair. The
  count fails when the relation from the interface to the route table is in the relation
  set: the pair is rendered once from the relation set and once more from the cross
  product, and the sorted edge list carries the visible statement twice.
\<close>

theorem eni_rtb_statement_twice_counterexample:
  "\<not> isl (fst (to_graphviz ex_route_vpc)) \<and>
   ctx_edges (projr (fst (to_graphviz ex_route_vpc))) =
     [edge_stmt ''eni-1'' ''rtb-1'' [(''color'', ''purple3'')],
      edge_stmt ''eni-1'' ''rtb-1'' [(''color'', ''purple3'')],
      edge_stmt ''i-1'' ''eni-1'' [(''color'', ''orange'')]] \<and>
   statements_for ''eni-1'' ''rtb-1'' (ctx_edges (projr (fst (to_graphviz ex_route_vpc)))) =
     [edge_stmt ''eni-1'' ''rtb-1'' [(''color'', ''purple3'')],
      edge_stmt ''eni-1'' ''rtb-1'' [(''color'', ''purple3'')]]"
  by code_simp

text \<open>
  C1, amended. In a graph whose resources have pairwise different node identifiers, take
  an interface and a route table that are stored under their ids and are each an endpoint
  of some relation. If the relation from the interface to the route table is not in the
  relation set, the output has exactly one statement for the pair, the alignment edge
  with \<open>weight="10"\<close> and \<open>style="invis"\<close>; if it is, the output has the visible
  statement, with the colour only, twice.
\<close>

theorem eni_rtb_statements:
  assumes run: "to_graphviz vpc = (Inr ctx, vpc')"
    and fin: "finite (relations vpc)"
    and keys: "distinct (map fst (services vpc))"
    and ids: "distinct (map (\<lambda>kv. gv_node_id (snd kv)) (services vpc))"
    and e: "(i, e) \<in> set (services vpc)" "service_name e = ''ENI''" "v_id e = Inr i"
    and t: "(j, t) \<in> set (services vpc)" "service_name t = ''RTB''" "v_id t = Inr j"
    and ends: "i \<in> relation_ends vpc" "j \<in> relation_ends vpc"
  shows "statements_for i j (ctx_edges ctx) =
           (if (i, j) \<in> relations vpc
            then [edge_stmt i j [(''color'', ''purple3'')],
                  edge_stmt i j [(''color'', ''purple3'')]]
            else [edge_stmt i j [(''color'', ''purple3''), (''weight'', ''10''),
                                 (''style'', ''invis'')]])"
proof -
  define vis where "vis = edge_stmt i j [(''color'', ''purple3'')]"
  define invis where
    "invis = edge_stmt i j [(''color'', ''purple3''), (''weight'', ''10''), (''style'', ''invis'')]"
  define s0 where "s0 = (if (i, j) \<in> relations vpc then vis else invis)"
  define P where "P = prefix (edge_head i j)"
  define vs where "vs = map snd (services vpc)"
  from to_graphviz_Inr [OF run] obtain conn and rt :: routing and edges where
    c: "connected_ids vpc = Inr conn" and
    rs: "route_services conn (contained_ids vpc) vs empty_routing = Inr rt" and
    oe: "output_edges vpc' (enis rt) (rtbs rt) = Inr edges" and
    ce: "ctx_edges ctx = edges"
    unfolding vs_def by auto
  have "only_defaults_added vpc vpc'"
    using to_graphviz_only_defaults_added [of vpc] run by simp
  then obtain m' where "vpc' = vpc\<lparr>subnets := m'\<rparr>"
    unfolding only_defaults_added_def by blast
  with oe have "output_edges vpc (enis rt) (rtbs rt) = Inr edges" by simp
  then obtain raw extra where
    raw: "relation_edges vpc = Inr raw" and
    extra: "eni_rtb_edges vpc (enis rt) (rtbs rt) = Inr extra" and
    edges: "edges = sort (not_none (raw @ extra))"
    by (auto simp: output_edges_def split: sum.splits)
  have vi: "vpc_getitem vpc i = Some e" and vj: "vpc_getitem vpc j = Some t"
    using e(1) t(1) keys by (simp_all add: vpc_getitem_def map_of_key)
  have Pvis: "P vis" and Pinvis: "P invis"
    by (simp_all add: P_def vis_def invis_def prefix_edge_head_self)
  then have Ps0: "P s0" by (simp add: s0_def)
  have "edge_attrs e t vpc =
          Inr (if (i, j) \<in> relations vpc then [(''color'', ''purple3'')]
               else [(''color'', ''purple3''), (''weight'', ''10''), (''style'', ''invis'')])"
    by (rule edge_attrs_route_table [OF e(2) t(2) e(3) t(3)])
  moreover have "service_name e \<noteq> ''SUBN''" using e(2) by simp
  ultimately have edge_ij: "edge (Some e) (Some t) vpc = Inr (Some s0)"
    using e(3) t(3) by (simp add: edge_of_attrs s0_def vis_def invis_def)
  have uniq: "a = i \<and> b = j"
    if ed: "edge (vpc_getitem vpc a) (vpc_getitem vpc b) vpc = Inr (Some s)" and ps: "P s"
    for a b s
  proof -
    from edge_Some_stmt [OF ed] obtain sa sb ia ib attrs where
      sa: "vpc_getitem vpc a = Some sa" and sb: "vpc_getitem vpc b = Some sb" and
      ia: "v_id sa = Inr ia" and ib: "v_id sb = Inr ib" and s: "s = edge_stmt ia ib attrs"
      by blast
    from ps s have "graphviz_id ia = graphviz_id i \<and> graphviz_id ib = graphviz_id j"
      unfolding P_def by (intro prefix_edge_head) simp
    then have na: "gv_node_id sa = gv_node_id e" and nb: "gv_node_id sb = gv_node_id t"
      using ia ib e(3) t(3) by (simp_all add: gv_node_id_Inr)
    have ina: "(a, sa) \<in> set (services vpc)" and inb: "(b, sb) \<in> set (services vpc)"
      using sa sb keys by (simp_all add: vpc_getitem_def map_of_key)
    from node_id_unique [OF ids ina e(1) na] node_id_unique [OF ids inb t(1) nb]
    show ?thesis by simp
  qed
  \<comment> \<open>the statements rendered from the relation set\<close>
  define L where "L = filter (\<lambda>x. vpc_contains vpc (source x) \<and> vpc_contains vpc (target x))
                        (sorted_list_of_set (relations vpc))"
  have inL: "(i, j) \<in> set L \<longleftrightarrow> (i, j) \<in> relations vpc"
  proof -
    have "vpc_contains vpc i" "vpc_contains vpc j"
      using e(1) t(1) by (auto simp: vpc_contains_def intro: rev_image_eqI)
    then show ?thesis using fin by (simp add: L_def source_def target_def)
  qed
  have A: "filter P (not_none raw) = (if (i, j) \<in> set L then [vis] else [])"
  proof (rule filter_single_source [where f = "\<lambda>x. edge (vpc_getitem vpc (source x))
        (vpc_getitem vpc (target x)) vpc"])
    show "map_err (\<lambda>x. edge (vpc_getitem vpc (source x)) (vpc_getitem vpc (target x)) vpc) L
            = Inr raw"
      using raw by (simp add: relation_edges_def L_def)
    show "distinct L" by (simp add: L_def)
  next
    assume "(i, j) \<in> set L"
    with inL have "s0 = vis" by (simp add: s0_def)
    with edge_ij vi vj Pvis
    show "edge (vpc_getitem vpc (source (i, j))) (vpc_getitem vpc (target (i, j))) vpc
            = Inr (Some vis) \<and> P vis"
      by (simp add: source_def target_def)
  next
    fix x s
    assume "x \<in> set L"
      and "edge (vpc_getitem vpc (source x)) (vpc_getitem vpc (target x)) vpc = Inr (Some s)"
      and "P s"
    from uniq [OF this(2,3)] show "x = (i, j)"
      by (cases x) (simp add: source_def target_def)
  qed
  \<comment> \<open>the statements rendered from the cross product\<close>
  from route_services_enis [OF rs] have
    resolved: "\<forall>v \<in> set vs. \<exists>k. v_id v = Inr k" and
    en: "enis rt = map (\<lambda>v. projr (v_id v))
           (filter (\<lambda>v. service_name v = ''ENI'' \<and> projr (v_id v) \<in> conn) vs)" and
    rt: "rtbs rt = map (\<lambda>v. projr (v_id v))
           (filter (\<lambda>v. service_name v = ''RTB'' \<and> projr (v_id v) \<in> conn) vs)"
    by (simp_all add: empty_routing_def)
  have dn: "distinct (map gv_node_id vs)"
    using ids by (simp add: vs_def comp_def)
  have same: "gv_node_id x = gv_node_id y"
    if "x \<in> set vs" "y \<in> set vs" "projr (v_id x) = projr (v_id y)" for x y
  proof -
    from resolved that(1,2) obtain kx ky where "v_id x = Inr kx" "v_id y = Inr ky" by blast
    with that(3) show ?thesis by (simp add: gv_node_id_def)
  qed
  have de: "distinct (enis rt)" and dr: "distinct (rtbs rt)"
    unfolding en rt by (rule distinct_map_filter_ids [OF dn same]; assumption)+
  have conn_sub: "relation_ends vpc \<subseteq> conn"
    using c by (rule relation_ends_connected)
  have "e \<in> set vs" "t \<in> set vs"
    using e(1) t(1) by (auto simp: vs_def intro: rev_image_eqI)
  then have fe: "e \<in> set (filter (\<lambda>v. service_name v = ''ENI'' \<and> projr (v_id v) \<in> conn) vs)"
    and ft: "t \<in> set (filter (\<lambda>v. service_name v = ''RTB'' \<and> projr (v_id v) \<in> conn) vs)"
    using e(2,3) t(2,3) ends conn_sub by auto
  have "projr (v_id e) \<in> set (enis rt)"
    unfolding en set_map using fe by (rule imageI)
  moreover have "projr (v_id t) \<in> set (rtbs rt)"
    unfolding rt set_map using ft by (rule imageI)
  ultimately have ie: "i \<in> set (enis rt)" and jr: "j \<in> set (rtbs rt)"
    using e(3) t(3) by simp_all
  have B: "filter P (not_none extra) =
             (if (i, j) \<in> set (List.product (enis rt) (rtbs rt)) then [s0] else [])"
  proof (rule filter_single_source [where f = "\<lambda>p. edge (vpc_getitem vpc (fst p))
        (vpc_getitem vpc (snd p)) vpc"])
    show "map_err (\<lambda>p. edge (vpc_getitem vpc (fst p)) (vpc_getitem vpc (snd p)) vpc)
            (List.product (enis rt) (rtbs rt)) = Inr extra"
      using extra by (simp add: eni_rtb_edges_def)
    show "distinct (List.product (enis rt) (rtbs rt))"
      using de dr by (rule distinct_product)
  next
    show "edge (vpc_getitem vpc (fst (i, j))) (vpc_getitem vpc (snd (i, j))) vpc
            = Inr (Some s0) \<and> P s0"
      using edge_ij vi vj Ps0 by simp
  next
    fix x s
    assume "x \<in> set (List.product (enis rt) (rtbs rt))"
      and "edge (vpc_getitem vpc (fst x)) (vpc_getitem vpc (snd x)) vpc = Inr (Some s)"
      and "P s"
    from uniq [OF this(2,3)] show "x = (i, j)"
      by (cases x) simp
  qed
  have "statements_for i j (ctx_edges ctx) = sort (filter P (not_none raw) @ filter P (not_none extra))"
    by (simp add: statements_for_def ce edges P_def [symmetric] filter_sort not_none_append)
  also have "\<dots> = (if (i, j) \<in> relations vpc then [vis, vis] else [invis])"
    using A B inL ie jr by (simp add: s0_def)
  finally show ?thesis
    by (simp add: vis_def invis_def)
qed

theorem eni_rtb_statements_witness:
  "statements_for ''eni-1'' ''rtb-1'' (ctx_edges (projr (fst (to_graphviz ex_aligned_vpc)))) =
     [edge_stmt ''eni-1'' ''rtb-1''
        [(''color'', ''purple3''), (''weight'', ''10''), (''style'', ''invis'')]] \<and>
   statements_for ''eni-1'' ''rtb-1'' (ctx_edges (projr (fst (to_graphviz ex_route_vpc)))) =
     [edge_stmt ''eni-1'' ''rtb-1'' [(''color'', ''purple3'')],
      edge_stmt ''eni-1'' ''rtb-1'' [(''color'', ''purple3'')]]"
proof -
  have ok: "\<not> isl (fst (to_graphviz ex_aligned_vpc))" "\<not> isl (fst (to_graphviz ex_route_vpc))"
    by code_simp+
  have run1: "to_graphviz ex_aligned_vpc =
      (Inr (projr (fst (to_graphviz ex_aligned_vpc))), snd (to_graphviz ex_aligned_vpc))"
    using ok(1) by (cases "to_graphviz ex_aligned_vpc") (auto simp: isl_def)
  have run2: "to_graphviz ex_route_vpc =
      (Inr (projr (fst (to_graphviz ex_route_vpc))), snd (to_graphviz ex_route_vpc))"
    using ok(2) by (cases "to_graphviz ex_route_vpc") (auto simp: isl_def)
  have fin: "finite (relations ex_aligned_vpc)" "finite (relations ex_route_vpc)"
    by (simp_all add: ex_aligned_vpc_def ex_route_vpc_def)
  have keys: "distinct (map fst (services ex_aligned_vpc))"
    "distinct (map fst (services ex_route_vpc))"
    by code_simp+
  have ids: "distinct (map (\<lambda>kv. gv_node_id (snd kv)) (services ex_aligned_vpc))"
    "distinct (map (\<lambda>kv. gv_node_id (snd kv)) (services ex_route_vpc))"
    by code_simp+
  have mem: "(''eni-1'', ex_eni) \<in> set (services ex_aligned_vpc)"
    "(''rtb-1'', ex_rtb) \<in> set (services ex_aligned_vpc)"
    "(''eni-1'', ex_eni) \<in> set (services ex_route_vpc)"
    "(''rtb-1'', ex_rtb) \<in> set (services ex_route_vpc)"
    by (simp_all add: ex_aligned_vpc_def ex_route_vpc_def)
  have names: "service_name ex_eni = ''ENI''" "service_name ex_rtb = ''RTB''"
    by (simp_all add: ex_eni_def ex_rtb_def ex_service_def)
  have vids: "v_id ex_eni = Inr ''eni-1''" "v_id ex_rtb = Inr ''rtb-1''"
    by (simp_all add: ex_eni_def ex_rtb_def v_id_ex_service)
  have ends: "''eni-1'' \<in> relation_ends ex_aligned_vpc" "''rtb-1'' \<in> relation_ends ex_aligned_vpc"
    "''eni-1'' \<in> relation_ends ex_route_vpc" "''rtb-1'' \<in> relation_ends ex_route_vpc"
    by code_simp+
  have rel: "(''eni-1'', ''rtb-1'') \<notin> relations ex_aligned_vpc"
    "(''eni-1'', ''rtb-1'') \<in> relations ex_route_vpc"
    by (simp_all add: ex_aligned_vpc_def ex_route_vpc_def)
  show ?thesis
    using eni_rtb_statements [OF run1 fin(1) keys(1) ids(1) mem(1) names(1) vids(1)
        mem(2) names(2) vids(2) ends(1) ends(2)]
      eni_rtb_statements [OF run2 fin(2) keys(2) ids(2) mem(3) names(1) vids(1)
        mem(4) names(2) vids(2) ends(3) ends(4)] rel
    by simp
qed

section \<open>Where each node statement is placed\<close>

lemma start_vpc_eq: "start_vpc = Some 2" by (simp add: start_vpc_def level_def LEVELS_def)
lemma end_top_eq: "end_top = Some 12" by (simp add: end_top_def level_def LEVELS_def)
lemma end_subnet_eq: "end_subnet = Some 14" by (simp add: end_subnet_def level_def LEVELS_def)

lemma place_shared_lists:
  assumes "v_id v = Inr i" and "place_shared conn cont v i nv r = Inr r1"
  shows "route53_services r1 = route53_services r @ (if shared_area_of conn cont v = Some AboveNetwork then [nv] else []) \<and>
         top_services r1 = top_services r @ (if shared_area_of conn cont v = Some TopNetwork then [nv] else []) \<and>
         bottom_services r1 = bottom_services r @ (if shared_area_of conn cont v = Some BottomNetwork then [nv] else []) \<and>
         nw_services r1 = nw_services r @ (if shared_area_of conn cont v = Some SideNetwork then [nv] else [])"
proof (cases "level (service_name v)")
  case None
  with assms show ?thesis
    by (simp add: place_shared_def py_lt_def)
next
  case (Some l)
  with assms show ?thesis
    by (auto simp: place_shared_def shared_area_of_def py_lt_def Let_def start_vpc_eq end_top_eq
        split: if_splits)
qed

lemma note_ranks_lists:
  "route53_services (note_ranks conn v i r) = route53_services r \<and>
   top_services (note_ranks conn v i r) = top_services r \<and>
   bottom_services (note_ranks conn v i r) = bottom_services r \<and>
   nw_services (note_ranks conn v i r) = nw_services r"
  by (simp add: note_ranks_def Let_def)

lemma route_service_lists:
  assumes "route_service conn cont v r = Inr r1"
  shows "\<exists>nv. node v = Inr nv \<and>
     route53_services r1 = route53_services r @ (if shared_area_of conn cont v = Some AboveNetwork then [nv] else []) \<and>
     top_services r1 = top_services r @ (if shared_area_of conn cont v = Some TopNetwork then [nv] else []) \<and>
     bottom_services r1 = bottom_services r @ (if shared_area_of conn cont v = Some BottomNetwork then [nv] else []) \<and>
     nw_services r1 = nw_services r @ (if shared_area_of conn cont v = Some SideNetwork then [nv] else [])"
proof -
  from assms obtain nv i r0 where nv: "node v = Inr nv" and i: "v_id v = Inr i"
    and p: "place_shared conn cont v i nv r = Inr r0" and r1: "r1 = note_ranks conn v i r0"
    by (auto simp: route_service_def split: sum.splits)
  from place_shared_lists [OF i p] nv r1 show ?thesis
    by (simp add: note_ranks_lists)
qed

lemma route_services_lists:
  assumes "route_services conn cont vs r = Inr r'"
  shows "(\<forall>v \<in> set vs. \<exists>nv. node v = Inr nv) \<and>
     route53_services r' = route53_services r @
       map (\<lambda>v. projr (node v)) (filter (\<lambda>v. shared_area_of conn cont v = Some AboveNetwork) vs) \<and>
     top_services r' = top_services r @
       map (\<lambda>v. projr (node v)) (filter (\<lambda>v. shared_area_of conn cont v = Some TopNetwork) vs) \<and>
     bottom_services r' = bottom_services r @
       map (\<lambda>v. projr (node v)) (filter (\<lambda>v. shared_area_of conn cont v = Some BottomNetwork) vs) \<and>
     nw_services r' = nw_services r @
       map (\<lambda>v. projr (node v)) (filter (\<lambda>v. shared_area_of conn cont v = Some SideNetwork) vs)"
  using assms
proof (induction vs arbitrary: r)
  case Nil
  then show ?case by simp
next
  case (Cons v vs)
  from Cons.prems obtain r1 where a: "route_service conn cont v r = Inr r1"
    and b: "route_services conn cont vs r1 = Inr r'"
    by (auto split: sum.splits)
  from route_service_lists [OF a] obtain nv where nv: "node v = Inr nv"
    and l: "route53_services r1 = route53_services r @ (if shared_area_of conn cont v = Some AboveNetwork then [nv] else [])"
      "top_services r1 = top_services r @ (if shared_area_of conn cont v = Some TopNetwork then [nv] else [])"
      "bottom_services r1 = bottom_services r @ (if shared_area_of conn cont v = Some BottomNetwork then [nv] else [])"
      "nw_services r1 = nw_services r @ (if shared_area_of conn cont v = Some SideNetwork then [nv] else [])"
    by blast
  from Cons.IH [OF b] nv l show ?case by simp
qed

lemma node_stmt:
  assumes "node v = Inr nv"
  shows "\<exists>i rest. v_id v = Inr i \<and> nv = graphviz_id i @ CHR '' '' # rest"
  using assms by (auto simp: node_def Let_def split: sum.splits option.splits)

lemma node_same_id:
  assumes "node v = Inr nv" and "node w = Inr nv"
  shows "gv_node_id v = gv_node_id w"
proof -
  from node_stmt [OF assms(1)] obtain i r1 where i: "v_id v = Inr i"
    and a: "nv = graphviz_id i @ CHR '' '' # r1" by blast
  from node_stmt [OF assms(2)] obtain j r2 where j: "v_id w = Inr j"
    and b: "nv = graphviz_id j @ CHR '' '' # r2" by blast
  have "prefix (graphviz_id i @ CHR '' '' # r1) (graphviz_id j @ CHR '' '' # r2)"
    using a b by simp
  from no_space_split [OF graphviz_id_no_space graphviz_id_no_space this]
  show ?thesis using i j by (simp add: gv_node_id_def)
qed

lemma count_picked:
  assumes d: "distinct (map gv_node_id vs)"
    and ok: "\<forall>w \<in> set vs. \<exists>n. node w = Inr n"
    and v: "v \<in> set vs" and nv: "node v = Inr nv"
  shows "count_list (map (\<lambda>w. projr (node w)) (filter C vs)) nv = (if C v then 1 else 0)"
proof -
  have same: "gv_node_id x = gv_node_id y"
    if "x \<in> set vs" "y \<in> set vs" "projr (node x) = projr (node y)" for x y
  proof -
    from ok that(1,2) obtain n m where "node x = Inr n" "node y = Inr m" by blast
    with that(3) show ?thesis by (auto intro: node_same_id)
  qed
  have dl: "distinct (map (\<lambda>w. projr (node w)) (filter C vs))"
    by (rule distinct_map_filter_ids [OF d same])
  have mem: "nv \<in> set (map (\<lambda>w. projr (node w)) (filter C vs)) \<longleftrightarrow> C v"
  proof
    assume "nv \<in> set (map (\<lambda>w. projr (node w)) (filter C vs))"
    then obtain w where w: "w \<in> set vs" "C w" "projr (node w) = nv" by auto
    with nv have "projr (node w) = projr (node v)" by simp
    from same [OF w(1) v this] have "gv_node_id w = gv_node_id v" .
    moreover have "inj_on gv_node_id (set vs)" using d by (simp add: distinct_map)
    ultimately have "w = v" using w(1) v by (meson inj_onD)
    with w(2) show "C v" by simp
  next
    assume "C v"
    with v have "v \<in> set (filter C vs)" by simp
    then have "(\<lambda>w. projr (node w)) v \<in> (\<lambda>w. projr (node w)) ` set (filter C vs)"
      by (rule imageI)
    with nv show "nv \<in> set (map (\<lambda>w. projr (node w)) (filter C vs))" by simp
  qed
  from count_list_distinct [OF dl, of nv] mem show ?thesis by simp
qed

lemma sum_list_insort_key:
  "sum_list (map w (insort_key g a xs)) = (w a :: nat) + sum_list (map w xs)"
  by (induction xs) simp_all

lemma sum_list_sort_key: "sum_list (map w (sort_key g xs)) = (sum_list (map w xs) :: nat)"
  by (induction xs) (simp_all add: sum_list_insort_key)

lemma map_err_length: "map_err f xs = Inr ys \<Longrightarrow> length ys = length xs"
  by (induction xs arbitrary: ys) (auto split: sum.splits)

lemma map_err_all: "map_err f xs = Inr ys \<Longrightarrow> \<forall>x \<in> set xs. \<exists>y. f x = Inr y"
  by (induction xs arbitrary: ys) (auto split: sum.splits)

lemma sorted_by_sum:
  assumes "sorted_by f xs = Inr ys"
  shows "sum_list (map w ys) = (sum_list (map w xs) :: nat)"
proof -
  from assms obtain ks where ks: "map_err f xs = Inr ks"
    and ys: "ys = map snd (sort_key fst (zip ks xs))"
    by (auto simp: sorted_by_def split: sum.splits)
  have len: "length ks = length xs" using ks by (rule map_err_length)
  have "sum_list (map w ys) = sum_list (map (\<lambda>p. w (snd p)) (sort_key fst (zip ks xs)))"
    by (simp add: ys comp_def)
  also have "\<dots> = sum_list (map (\<lambda>p. w (snd p)) (zip ks xs))"
    by (rule sum_list_sort_key)
  also have "\<dots> = sum_list (map w (map snd (zip ks xs)))"
    by (simp add: comp_def)
  also have "map snd (zip ks xs) = xs"
    using len by simp
  finally show ?thesis .
qed

lemma sorted_by_set:
  assumes "sorted_by f xs = Inr ys"
  shows "set ys = set xs"
proof -
  from assms obtain ks where ks: "map_err f xs = Inr ks"
    and ys: "ys = map snd (sort_key fst (zip ks xs))"
    by (auto simp: sorted_by_def split: sum.splits)
  have len: "length ks = length xs" using ks by (rule map_err_length)
  have "set ys = snd ` set (zip ks xs)" by (simp add: ys)
  also have "\<dots> = set (map snd (zip ks xs))" by simp
  also have "map snd (zip ks xs) = xs" using len by simp
  finally show ?thesis .
qed

lemma count_list_concat_sum:
  "count_list (concat (map f xs)) y = sum_list (map (\<lambda>x. count_list (f x) y) xs)"
  by (induction xs) simp_all

lemma count_list_map_sum:
  "count_list (map h xs) y = sum_list (map (\<lambda>x. if h x = y then 1 else 0) xs)"
  by (induction xs) simp_all

lemma count_list_filter: "count_list (filter Q xs) y = (if Q y then count_list xs y else 0)"
  by (induction xs) auto

lemma sum_list_indicator_count:
  "sum_list (map (\<lambda>x. if x = y then 1 else 0) xs) = count_list xs y"
  by (induction xs) auto

text \<open>A resource stored under its id is the only one drawn under its node statement.\<close>

lemma node_opt_getitem_iff:
  assumes gids: "distinct (map (\<lambda>kv. gv_node_id (snd kv)) svcs)"
    and keys: "distinct (map fst svcs)"
    and v: "(i, v) \<in> set svcs" and nv: "node v = Inr nv"
  shows "node_opt (map_of svcs x) = Inr nv \<longleftrightarrow> x = i"
proof
  assume a: "node_opt (map_of svcs x) = Inr nv"
  then obtain w where w: "map_of svcs x = Some w" and nw: "node w = Inr nv"
    by (auto simp: node_opt_def split: option.splits)
  from w keys have "(x, w) \<in> set svcs" by (simp add: map_of_key)
  from node_id_unique [OF gids this v node_same_id [OF nw nv]] show "x = i" by simp
next
  assume "x = i"
  with v keys have "map_of svcs x = Some v" by (simp add: map_of_key)
  with nv show "node_opt (map_of svcs x) = Inr nv" by (simp add: node_opt_def)
qed

lemma gv_subnet_count:
  assumes run: "gv_subnet conn ss sn_i inst vpc = (Inr sn, vpc1)"
    and iff: "\<And>x. node_opt (vpc_getitem vpc x) = Inr nv \<longleftrightarrow> x = i"
  shows "\<exists>k. opt_id inst = Inr k \<and>
           count_list (sn_services sn) nv =
             (if i \<in> conn \<and> i \<in> ss then count_list (subnets_read (subnets vpc) k) i else 0)"
proof -
  from run obtain subnet k ordered where
    inst: "inst = Some subnet" and k: "v_id subnet = Inr k" and
    so: "sorted_by inside_key
           (map (vpc_getitem (vpc\<lparr>subnets := snd (subnets_getitem (subnets vpc) k)\<rparr>))
              (filter (\<lambda>x. x \<in> conn \<and> x \<in> ss) (fst (subnets_getitem (subnets vpc) k))))
         = Inr ordered" and
    no: "map_err node_opt ordered = Inr (sn_services sn)"
    by (auto simp: gv_subnet_def Let_def split: option.splits sum.splits)
  define members where "members = filter (\<lambda>x. x \<in> conn \<and> x \<in> ss) (subnets_read (subnets vpc) k)"
  have gi: "vpc_getitem (vpc\<lparr>subnets := snd (subnets_getitem (subnets vpc) k)\<rparr>) = vpc_getitem vpc"
    by (rule ext) (simp add: vpc_getitem_def)
  from so have so': "sorted_by inside_key (map (vpc_getitem vpc) members) = Inr ordered"
    by (simp add: gi members_def subnets_getitem_fst)
  have all: "\<forall>x \<in> set ordered. \<exists>y. node_opt x = Inr y"
    using no by (rule map_err_all)
  have "sn_services sn = map (\<lambda>x. projr (node_opt x)) ordered"
    using no by (rule map_err_Inr)
  then have "count_list (sn_services sn) nv =
      sum_list (map (\<lambda>x. if projr (node_opt x) = nv then 1 else 0) ordered)"
    by (simp add: count_list_map_sum)
  also have "\<dots> = sum_list (map (\<lambda>x. if node_opt x = Inr nv then 1 else 0) ordered)"
  proof (rule arg_cong [where f = sum_list], rule map_cong [OF refl])
    fix x assume "x \<in> set ordered"
    with all obtain y where "node_opt x = Inr y" by blast
    then show "(if projr (node_opt x) = nv then 1 else 0) = (if node_opt x = Inr nv then 1 else (0::nat))"
      by simp
  qed
  also have "\<dots> = sum_list (map (\<lambda>x. if node_opt x = Inr nv then 1 else 0) (map (vpc_getitem vpc) members))"
    using so' by (rule sorted_by_sum)
  also have "\<dots> = sum_list (map (\<lambda>x. if x = i then 1 else 0) members)"
    by (simp add: comp_def iff)
  also have "\<dots> = count_list members i"
    by (rule sum_list_indicator_count)
  also have "\<dots> = (if i \<in> conn \<and> i \<in> ss then count_list (subnets_read (subnets vpc) k) i else 0)"
    by (simp add: members_def count_list_filter)
  finally show ?thesis
    using inst k by (simp add: opt_id_def)
qed

lemma defaults_added_read:
  assumes "defaults_added m m'"
  shows "subnets_read m' = subnets_read m"
proof (rule ext)
  fix k
  from assms have "m' k = m k \<or> (m k = None \<and> m' k = Some [])"
    by (simp add: defaults_added_def)
  then show "subnets_read m' k = subnets_read m k"
    by (auto simp: subnets_read_def)
qed

lemma only_defaults_added_read:
  "only_defaults_added vpc vpc' \<Longrightarrow> subnets_read (subnets vpc') = subnets_read (subnets vpc)"
  by (auto simp: only_defaults_added_def defaults_added_read)

lemma gv_subnets_count:
  assumes run: "gv_subnets conn ss insts sn_i vpc = (Inr (sns, sn_j), vpc')"
    and iff: "\<And>x. node_opt (vpc_getitem vpc x) = Inr nv \<longleftrightarrow> x = i"
  shows "count_list (concat (map sn_services sns)) nv =
           (if i \<in> conn \<and> i \<in> ss
            then sum_list (map (\<lambda>inst. count_list (subnets_read (subnets vpc) (projr (opt_id inst))) i) insts)
            else 0)"
  using run iff
proof (induction insts arbitrary: sn_i vpc sns)
  case Nil
  then show ?case by simp
next
  case (Cons inst rest)
  from Cons.prems(1) obtain sn vpc1 sns1 where
    a: "gv_subnet conn ss sn_i inst vpc = (Inr sn, vpc1)" and
    b: "gv_subnets conn ss rest (Suc sn_i) vpc1 = (Inr (sns1, sn_j), vpc')" and
    c: "sns = sn # sns1"
    by (auto split: prod.splits sum.splits)
  have fr: "only_defaults_added vpc vpc1"
    using gv_subnet_frame [of vpc conn ss sn_i inst] a by simp
  have g1: "vpc_getitem vpc1 = vpc_getitem vpc"
    using fr by (rule only_defaults_added_getitem)
  have r1: "subnets_read (subnets vpc1) = subnets_read (subnets vpc)"
    using fr by (rule only_defaults_added_read)
  from gv_subnet_count [OF a Cons.prems(2)] obtain k where k: "opt_id inst = Inr k"
    and ca: "count_list (sn_services sn) nv =
      (if i \<in> conn \<and> i \<in> ss then count_list (subnets_read (subnets vpc) k) i else 0)"
    by blast
  have "count_list (concat (map sn_services sns1)) nv =
           (if i \<in> conn \<and> i \<in> ss
            then sum_list (map (\<lambda>inst. count_list (subnets_read (subnets vpc1) (projr (opt_id inst))) i) rest)
            else 0)"
    using b by (rule Cons.IH) (simp add: g1 Cons.prems(2))
  with ca k c show ?case by (simp add: r1)
qed

lemma az_place_lists:
  assumes "az_place z sa v tb = Inr tb1"
  shows "\<exists>nv i l. node v = Inr nv \<and> v_id v = Inr i \<and> level (service_name v) = Some l \<and>
     fst tb1 = fst tb @ (if l < 12 \<and> i \<in> set (service_ids z) \<and> i \<in> sa then [nv] else []) \<and>
     snd tb1 = snd tb @ (if 14 < l \<and> i \<in> set (service_ids z) \<and> i \<in> sa then [nv] else [])"
proof (cases "level (service_name v)")
  case None
  with assms show ?thesis
    by (auto simp: az_place_def Let_def py_lt_def split: sum.splits)
next
  case (Some l)
  with assms show ?thesis
    by (auto simp: az_place_def Let_def py_lt_def py_gt_def end_top_eq end_subnet_eq
        split: sum.splits)
qed

lemma az_places_lists:
  assumes "az_places z sa vs tb = Inr tb'"
  shows "(\<forall>w \<in> set vs. \<exists>n. node w = Inr n) \<and>
     fst tb' = fst tb @ map (\<lambda>w. projr (node w))
       (filter (\<lambda>w. the (level (service_name w)) < 12 \<and> projr (v_id w) \<in> set (service_ids z) \<and>
                    projr (v_id w) \<in> sa) vs) \<and>
     snd tb' = snd tb @ map (\<lambda>w. projr (node w))
       (filter (\<lambda>w. 14 < the (level (service_name w)) \<and> projr (v_id w) \<in> set (service_ids z) \<and>
                    projr (v_id w) \<in> sa) vs)"
  using assms
proof (induction vs arbitrary: tb)
  case Nil
  then show ?case by simp
next
  case (Cons v vs)
  from Cons.prems obtain tb1 where a: "az_place z sa v tb = Inr tb1"
    and b: "az_places z sa vs tb1 = Inr tb'"
    by (auto split: sum.splits)
  from az_place_lists [OF a] obtain nv i l where
    "node v = Inr nv" "v_id v = Inr i" "level (service_name v) = Some l"
    "fst tb1 = fst tb @ (if l < 12 \<and> i \<in> set (service_ids z) \<and> i \<in> sa then [nv] else [])"
    "snd tb1 = snd tb @ (if 14 < l \<and> i \<in> set (service_ids z) \<and> i \<in> sa then [nv] else [])"
    by blast
  with Cons.IH [OF b] show ?case by simp
qed

lemma gv_zone_count:
  assumes run: "gv_zone conn ss sa az_i sn_i kz vpc = (Inr (az, sn_j), vpc')"
    and gids: "distinct (map (\<lambda>kv. gv_node_id (snd kv)) (services vpc))"
    and keys: "distinct (map fst (services vpc))"
    and stored: "\<forall>kv \<in> set (services vpc). v_id (snd kv) = Inr (fst kv)"
    and v: "(i, v) \<in> set (services vpc)" and nv: "node v = Inr nv"
    and lv: "level (service_name v) = Some l"
  shows "count_list (az_top_services az @ az_bottom_services az) nv =
           (if i \<in> set (service_ids (snd kz)) \<and> i \<in> sa \<and> (l < 12 \<or> 14 < l) then 1 else 0) \<and>
         count_list (concat (map sn_services (az_subnets az))) nv =
           (if i \<in> conn \<and> i \<in> ss
            then count_list (concat (map (subnets_read (subnets vpc)) (subnet_ids (snd kz)))) i
            else 0)"
proof -
  define vs where "vs = map snd (services vpc)"
  define ks where "ks = subnet_ids (snd kz)"
  define rd where "rd = subnets_read (subnets vpc)"
  from run obtain tb insts sns where
    pl: "az_places (snd kz) sa vs ([], []) = Inr tb" and
    so: "sorted_by cidr_sort (map (vpc_getitem vpc) ks) = Inr insts" and
    gs: "gv_subnets conn ss insts sn_i vpc = (Inr (sns, sn_j), vpc')" and
    az: "az_top_services az = fst tb" "az_bottom_services az = snd tb" "az_subnets az = sns"
    unfolding vs_def ks_def by (auto simp: gv_zone_def split: sum.splits prod.splits)
  have iv: "v_id v = Inr i" using stored v by auto
  have vin: "v \<in> set vs" using v by (auto simp: vs_def intro: rev_image_eqI)
  have d: "distinct (map gv_node_id vs)" using gids by (simp add: vs_def comp_def)
  \<comment> \<open>the two lists of the zone\<close>
  from az_places_lists [OF pl] have ok: "\<forall>w \<in> set vs. \<exists>n. node w = Inr n"
    and ft: "fst tb = map (\<lambda>w. projr (node w))
       (filter (\<lambda>w. the (level (service_name w)) < 12 \<and> projr (v_id w) \<in> set (service_ids (snd kz)) \<and>
                    projr (v_id w) \<in> sa) vs)"
    and sb: "snd tb = map (\<lambda>w. projr (node w))
       (filter (\<lambda>w. 14 < the (level (service_name w)) \<and> projr (v_id w) \<in> set (service_ids (snd kz)) \<and>
                    projr (v_id w) \<in> sa) vs)"
    by simp_all
  have ct: "count_list (fst tb) nv =
      (if l < 12 \<and> i \<in> set (service_ids (snd kz)) \<and> i \<in> sa then 1 else 0)"
    unfolding ft using count_picked [OF d ok vin nv] by (simp add: lv iv)
  have cb: "count_list (snd tb) nv =
      (if 14 < l \<and> i \<in> set (service_ids (snd kz)) \<and> i \<in> sa then 1 else 0)"
    unfolding sb using count_picked [OF d ok vin nv] by (simp add: lv iv)
  have zone: "count_list (az_top_services az @ az_bottom_services az) nv =
           (if i \<in> set (service_ids (snd kz)) \<and> i \<in> sa \<and> (l < 12 \<or> 14 < l) then 1 else 0)"
    using ct cb az by auto
  \<comment> \<open>the subnet clusters of the zone\<close>
  have iff: "node_opt (vpc_getitem vpc x) = Inr nv \<longleftrightarrow> x = i" for x
    unfolding vpc_getitem_def by (rule node_opt_getitem_iff [OF gids keys v nv])
  from so obtain cs where "map_err cidr_sort (map (vpc_getitem vpc) ks) = Inr cs"
    by (auto simp: sorted_by_def split: sum.splits)
  then have cid: "\<forall>x \<in> set (map (vpc_getitem vpc) ks). \<exists>y. cidr_sort x = Inr y"
    by (rule map_err_all)
  have key: "projr (opt_id (vpc_getitem vpc k)) = k" if "k \<in> set ks" for k
  proof -
    from cid that obtain y where "cidr_sort (vpc_getitem vpc k) = Inr y" by auto
    then obtain s where s: "vpc_getitem vpc k = Some s"
      by (auto simp: cidr_sort_def split: option.splits)
    then have "(k, s) \<in> set (services vpc)"
      using keys by (simp add: vpc_getitem_def map_of_key)
    with stored have "v_id s = Inr k" by auto
    with s show ?thesis by (simp add: opt_id_def)
  qed
  have "sum_list (map (\<lambda>inst. count_list (rd (projr (opt_id inst))) i) insts) =
        sum_list (map (\<lambda>inst. count_list (rd (projr (opt_id inst))) i) (map (vpc_getitem vpc) ks))"
    using so by (rule sorted_by_sum)
  also have "\<dots> = sum_list (map (\<lambda>k. count_list (rd (projr (opt_id (vpc_getitem vpc k)))) i) ks)"
    by (simp add: comp_def)
  also have "\<dots> = sum_list (map (\<lambda>k. count_list (rd k) i) ks)"
    by (rule arg_cong [where f = sum_list], rule map_cong [OF refl]) (simp add: key)
  also have "\<dots> = count_list (concat (map rd ks)) i"
    by (simp add: count_list_concat_sum)
  finally have total: "sum_list (map (\<lambda>inst. count_list (rd (projr (opt_id inst))) i) insts) =
      count_list (concat (map rd ks)) i" .
  have "count_list (concat (map sn_services sns)) nv =
           (if i \<in> conn \<and> i \<in> ss
            then sum_list (map (\<lambda>inst. count_list (rd (projr (opt_id inst))) i) insts)
            else 0)"
    unfolding rd_def using gs iff by (rule gv_subnets_count)
  with total az zone show ?thesis
    by (simp add: rd_def ks_def)
qed

lemma gv_zones_count:
  assumes run: "gv_zones conn ss sa kzs az_i sn_i vpc = (Inr gvazs, vpc')"
    and gids: "distinct (map (\<lambda>kv. gv_node_id (snd kv)) (services vpc))"
    and keys: "distinct (map fst (services vpc))"
    and stored: "\<forall>kv \<in> set (services vpc). v_id (snd kv) = Inr (fst kv)"
    and v: "(i, v) \<in> set (services vpc)" and nv: "node v = Inr nv"
    and lv: "level (service_name v) = Some l"
  shows "count_list (concat (map (\<lambda>az. az_top_services az @ az_bottom_services az) gvazs)) nv =
           (if i \<in> sa \<and> (l < 12 \<or> 14 < l)
            then sum_list (map (\<lambda>kz. if i \<in> set (service_ids (snd kz)) then 1 else 0) kzs)
            else 0) \<and>
         count_list (concat (map (\<lambda>az. concat (map sn_services (az_subnets az))) gvazs)) nv =
           (if i \<in> conn \<and> i \<in> ss
            then sum_list (map (\<lambda>kz. count_list
                   (concat (map (subnets_read (subnets vpc)) (subnet_ids (snd kz)))) i) kzs)
            else 0)"
  using run gids keys stored v
proof (induction kzs arbitrary: az_i sn_i vpc gvazs)
  case Nil
  then show ?case by simp
next
  case (Cons kz rest)
  from Cons.prems(1) obtain az sn_j vpc1 azs1 where
    a: "gv_zone conn ss sa az_i sn_i kz vpc = (Inr (az, sn_j), vpc1)" and
    b: "gv_zones conn ss sa rest (Suc az_i) sn_j vpc1 = (Inr azs1, vpc')" and
    c: "gvazs = az # azs1"
    by (auto split: prod.splits sum.splits)
  have fr: "only_defaults_added vpc vpc1"
    using gv_zone_frame [of vpc conn ss sa az_i sn_i kz] a by simp
  have sv: "services vpc1 = services vpc"
    using fr by (rule only_defaults_added_services)
  have r1: "subnets_read (subnets vpc1) = subnets_read (subnets vpc)"
    using fr by (rule only_defaults_added_read)
  note one = gv_zone_count [OF a Cons.prems(2,3,4,5) nv lv]
  have rest: "count_list (concat (map (\<lambda>az. az_top_services az @ az_bottom_services az) azs1)) nv =
           (if i \<in> sa \<and> (l < 12 \<or> 14 < l)
            then sum_list (map (\<lambda>kz. if i \<in> set (service_ids (snd kz)) then 1 else 0) rest)
            else 0) \<and>
         count_list (concat (map (\<lambda>az. concat (map sn_services (az_subnets az))) azs1)) nv =
           (if i \<in> conn \<and> i \<in> ss
            then sum_list (map (\<lambda>kz. count_list
                   (concat (map (subnets_read (subnets vpc1)) (subnet_ids (snd kz)))) i) rest)
            else 0)"
    using b Cons.prems(2,3,4,5) unfolding sv [symmetric] by (rule Cons.IH)
  from one have z1: "count_list (az_top_services az) nv + count_list (az_bottom_services az) nv =
      (if i \<in> set (service_ids (snd kz)) \<and> i \<in> sa \<and> (l < 12 \<or> 14 < l) then 1 else 0)"
    and s1: "count_list (concat (map sn_services (az_subnets az))) nv =
      (if i \<in> conn \<and> i \<in> ss
       then count_list (concat (map (subnets_read (subnets vpc)) (subnet_ids (snd kz)))) i
       else 0)"
    by simp_all
  from rest have z2: "count_list (concat (map (\<lambda>az. az_top_services az @ az_bottom_services az) azs1)) nv =
           (if i \<in> sa \<and> (l < 12 \<or> 14 < l)
            then sum_list (map (\<lambda>kz. if i \<in> set (service_ids (snd kz)) then 1 else 0) rest)
            else 0)"
    and s2: "count_list (concat (map (\<lambda>az. concat (map sn_services (az_subnets az))) azs1)) nv =
           (if i \<in> conn \<and> i \<in> ss
            then sum_list (map (\<lambda>kz. count_list
                   (concat (map (subnets_read (subnets vpc)) (subnet_ids (snd kz)))) i) rest)
            else 0)"
    by (simp_all add: r1)
  show ?case
  proof (intro conjI)
    have "count_list (concat (map (\<lambda>az. az_top_services az @ az_bottom_services az) gvazs)) nv =
        (count_list (az_top_services az) nv + count_list (az_bottom_services az) nv) +
        count_list (concat (map (\<lambda>az. az_top_services az @ az_bottom_services az) azs1)) nv"
      by (simp add: c)
    also have "\<dots> = (if i \<in> sa \<and> (l < 12 \<or> 14 < l)
            then sum_list (map (\<lambda>kz. if i \<in> set (service_ids (snd kz)) then 1 else 0) (kz # rest))
            else 0)"
      unfolding z1 z2 by (cases "i \<in> sa \<and> (l < 12 \<or> 14 < l)") auto
    finally show "count_list (concat (map (\<lambda>az. az_top_services az @ az_bottom_services az) gvazs)) nv =
        (if i \<in> sa \<and> (l < 12 \<or> 14 < l)
            then sum_list (map (\<lambda>kz. if i \<in> set (service_ids (snd kz)) then 1 else 0) (kz # rest))
            else 0)" .
  next
    have "count_list (concat (map (\<lambda>az. concat (map sn_services (az_subnets az))) gvazs)) nv =
        count_list (concat (map sn_services (az_subnets az))) nv +
        count_list (concat (map (\<lambda>az. concat (map sn_services (az_subnets az))) azs1)) nv"
      by (simp add: c)
    also have "\<dots> = (if i \<in> conn \<and> i \<in> ss
            then sum_list (map (\<lambda>kz. count_list
                   (concat (map (subnets_read (subnets vpc)) (subnet_ids (snd kz)))) i) (kz # rest))
            else 0)"
      unfolding s1 s2 by (cases "i \<in> conn \<and> i \<in> ss") auto
    finally show "count_list (concat (map (\<lambda>az. concat (map sn_services (az_subnets az))) gvazs)) nv =
        (if i \<in> conn \<and> i \<in> ss
            then sum_list (map (\<lambda>kz. count_list
                   (concat (map (subnets_read (subnets vpc)) (subnet_ids (snd kz)))) i) (kz # rest))
            else 0)" .
  qed
qed

lemma count_zero_sum_indicator:
  "count_list (concat (map f xs)) y = 0 \<Longrightarrow>
     sum_list (map (\<lambda>x. if y \<in> set (f x) then 1 else 0) xs) = (0::nat)"
  by (induction xs) (auto simp: count_list_0_iff)

lemma count_one_sum_indicator:
  "count_list (concat (map f xs)) y = 1 \<Longrightarrow>
     sum_list (map (\<lambda>x. if y \<in> set (f x) then 1 else 0) xs) = (1::nat)"
proof (induction xs)
  case Nil
  then show ?case by simp
next
  case (Cons x xs)
  show ?case
  proof (cases "y \<in> set (f x)")
    case True
    then have "count_list (f x) y \<noteq> 0" by (simp add: count_list_0_iff)
    with Cons.prems have "count_list (concat (map f xs)) y = 0" by simp
    then have "sum_list (map (\<lambda>x. if y \<in> set (f x) then 1 else 0) xs) = (0::nat)"
      by (rule count_zero_sum_indicator)
    with True show ?thesis by simp
  next
    case False
    then have "count_list (f x) y = 0" by (simp add: count_list_0_iff)
    with Cons.prems have "count_list (concat (map f xs)) y = 1" by simp
    from Cons.IH [OF this] False show ?thesis by simp
  qed
qed

lemma count_nested_concat:
  "count_list (concat (map rd (concat (map g xs)))) y =
     sum_list (map (\<lambda>x. count_list (concat (map rd (g x))) y) xs)"
  by (induction xs) simp_all

lemma subnets_read_tallied: "subnets_read (subnets (tallied vpc)) = subnets_read (subnets vpc)"
  unfolding tallied_def using defaults_added_tally_zones [of "subnets vpc" "map snd (azs vpc)" "[]" "[]"]
  by (simp add: defaults_added_read)

text \<open>
  C4. The claim: every resource is placed in exactly one location by the decision tree,
  and a resource that the shared areas do not take is nested under its subnet cluster if
  it is single_subnet. The subnet cluster takes only resources that are also connected:
  an interface that lives in one subnet and that no relation names is single_subnet, the
  rendering succeeds, and its node statement is in no area at all.
\<close>

theorem layout_unconnected_dropped_counterexample:
  "(''eni-1'', ex_eni) \<in> set (services ex_lone_eni_vpc) \<and>
   ''eni-1'' \<in> single_subnet ex_lone_eni_vpc \<and>
   \<not> isl (fst (to_graphviz ex_lone_eni_vpc)) \<and>
   map (area_nodes (projr (fst (to_graphviz ex_lone_eni_vpc))))
     [AboveNetwork, TopNetwork, BottomNetwork, SideNetwork, ZoneCluster, SubnetCluster] =
     [[], [], [], [], [], []]"
  by code_simp

text \<open>
  C4, amended. In a graph whose resources are stored under their ids and have pairwise
  different node identifiers, whenever rendering succeeds, the node statement of a
  resource occurs in an area once if the decision for the shared areas or the decision
  for the clusters names that area, and not at all otherwise. The decision for the shared
  areas is the claim's (a) to (d); the decision for the clusters nests a single_az
  resource under its zone only if its level is below the subnet level or beyond the
  interface level, and a single_subnet resource under its subnet only if it is connected.
  A resource whose level is not below the VPC level is named by at most one of the two
  decisions, so it is placed in one area or in none.
\<close>

theorem layout_placement:
  assumes run: "to_graphviz vpc = (Inr ctx, vpc')"
    and conn: "connected_ids vpc = Inr conn"
    and gids: "distinct (map (\<lambda>kv. gv_node_id (snd kv)) (services vpc))"
    and stored: "\<forall>kv \<in> set (services vpc). v_id (snd kv) = Inr (fst kv)"
    and v: "(i, v) \<in> set (services vpc)" and nv: "node v = Inr nv"
    and lv: "level (service_name v) = Some l"
  shows "(\<forall>a. count_list (area_nodes ctx a) nv =
            (if shared_area_of conn (contained_ids vpc) v = Some a \<or>
                nested_area_of conn (single_az vpc) (single_subnet vpc) v = Some a
             then 1 else 0)) \<and>
         (2 \<le> l \<longrightarrow> shared_area_of conn (contained_ids vpc) v = None \<or>
                    nested_area_of conn (single_az vpc) (single_subnet vpc) v = None)"
proof -
  define vs where "vs = map snd (services vpc)"
  define sh where "sh = shared_area_of conn (contained_ids vpc) v"
  define ne where "ne = nested_area_of conn (single_az vpc) (single_subnet vpc) v"
  have iv: "v_id v = Inr i" using stored v by auto
  have keys: "distinct (map fst (services vpc))"
  proof -
    have a: "map (\<lambda>kv. gv_node_id (snd kv)) (services vpc) =
        map (\<lambda>kv. graphviz_id (fst kv)) (services vpc)"
      by (rule map_cong [OF refl]) (use stored in \<open>simp add: gv_node_id_def\<close>)
    have b: "map (\<lambda>kv. graphviz_id (fst kv)) (services vpc) =
        map graphviz_id (map fst (services vpc))"
      by (simp add: comp_def)
    from gids have "distinct (map graphviz_id (map fst (services vpc)))"
      unfolding a b .
    then show ?thesis by (rule distinct_map [THEN iffD1, THEN conjunct1])
  qed
  from to_graphviz_Inr [OF run] conn obtain rt :: routing and gvazs where
    rs: "route_services conn (contained_ids vpc) vs empty_routing = Inr rt" and
    gz: "gv_zones conn (single_subnet vpc) (single_az vpc) (sort_key fst (azs vpc)) 0 0 (tallied vpc)
           = (Inr gvazs, vpc')" and
    lists: "ctx_route53_services ctx = route53_services rt" "ctx_top_services ctx = top_services rt"
      "ctx_bottom_services ctx = bottom_services rt" "ctx_nw_services ctx = nw_services rt"
      "ctx_azs ctx = gvazs"
    unfolding vs_def by auto
  \<comment> \<open>the shared lists\<close>
  have vin: "v \<in> set vs" using v by (auto simp: vs_def intro: rev_image_eqI)
  have d: "distinct (map gv_node_id vs)" using gids by (simp add: vs_def comp_def)
  from route_services_lists [OF rs] have ok: "\<forall>w \<in> set vs. \<exists>n. node w = Inr n"
    and l1: "route53_services rt = map (\<lambda>w. projr (node w))
        (filter (\<lambda>w. shared_area_of conn (contained_ids vpc) w = Some AboveNetwork) vs)"
    and l2: "top_services rt = map (\<lambda>w. projr (node w))
        (filter (\<lambda>w. shared_area_of conn (contained_ids vpc) w = Some TopNetwork) vs)"
    and l3: "bottom_services rt = map (\<lambda>w. projr (node w))
        (filter (\<lambda>w. shared_area_of conn (contained_ids vpc) w = Some BottomNetwork) vs)"
    and l4: "nw_services rt = map (\<lambda>w. projr (node w))
        (filter (\<lambda>w. shared_area_of conn (contained_ids vpc) w = Some SideNetwork) vs)"
    by (simp_all add: empty_routing_def)
  note pick = count_picked [OF d ok vin nv]
  have c1: "count_list (area_nodes ctx AboveNetwork) nv = (if sh = Some AboveNetwork then 1 else 0)"
    and c2: "count_list (area_nodes ctx TopNetwork) nv = (if sh = Some TopNetwork then 1 else 0)"
    and c3: "count_list (area_nodes ctx BottomNetwork) nv = (if sh = Some BottomNetwork then 1 else 0)"
    and c4: "count_list (area_nodes ctx SideNetwork) nv = (if sh = Some SideNetwork then 1 else 0)"
    using pick by (simp_all add: lists l1 l2 l3 l4 sh_def)
  \<comment> \<open>the clusters\<close>
  have st: "services (tallied vpc) = services vpc" by (simp add: tallied_def)
  note zc = gv_zones_count [OF gz, unfolded st, OF gids keys stored v nv lv]
  have sa: "sum_list (map (\<lambda>kz. if i \<in> set (service_ids (snd kz)) then 1 else 0)
              (sort_key fst (azs vpc))) = (1::nat)" if "i \<in> single_az vpc"
  proof -
    from that have "count_list (az_tally_of vpc) i = 1" by (simp add: single_az_iff)
    then have "count_list (concat (map (\<lambda>kz. service_ids (snd kz)) (azs vpc))) i = 1"
      by (simp add: az_tally_of_eq)
    then have "sum_list (map (\<lambda>kz. if i \<in> set (service_ids (snd kz)) then 1 else 0) (azs vpc)) = (1::nat)"
      by (rule count_one_sum_indicator)
    then show ?thesis by (simp add: sum_list_sort_key)
  qed
  have ss: "sum_list (map (\<lambda>kz. count_list (concat (map (subnets_read (subnets (tallied vpc)))
              (subnet_ids (snd kz)))) i) (sort_key fst (azs vpc))) = (1::nat)"
    if "i \<in> single_subnet vpc"
  proof -
    from that have "count_list (sn_tally_of vpc) i = 1"
      by (simp add: single_subnet_def single_subnet_of_def singles_iff)
    then have "sum_list (map (\<lambda>kz. count_list (concat (map (subnets_read (subnets vpc))
              (subnet_ids (snd kz)))) i) (azs vpc)) = 1"
      by (simp add: sn_tally_of_eq listed_subnets_def count_nested_concat)
    then show ?thesis by (simp add: sum_list_sort_key subnets_read_tallied)
  qed
  have c5: "count_list (area_nodes ctx ZoneCluster) nv =
      (if i \<in> single_az vpc \<and> (l < 12 \<or> 14 < l) then 1 else 0)"
    using zc sa by (simp add: lists)
  have c6: "count_list (area_nodes ctx SubnetCluster) nv =
      (if i \<in> conn \<and> i \<in> single_subnet vpc then 1 else 0)"
    using zc ss by (simp add: lists)
  \<comment> \<open>the two decisions\<close>
  have disj: "i \<notin> single_subnet vpc" if "i \<in> single_az vpc"
    using that by (simp add: single_az_iff)
  have ne_eq: "ne = (if i \<in> single_az vpc \<and> (l < 12 \<or> 14 < l) then Some ZoneCluster
                    else if i \<in> single_subnet vpc \<and> i \<in> conn then Some SubnetCluster else None)"
    by (simp add: ne_def nested_area_of_def lv iv)
  have sh_eq: "sh = (if l < 2 then Some AboveNetwork
                    else if l < 12 \<and> i \<notin> contained_ids vpc then Some TopNetwork
                    else if service_name v \<in> set BOTTOM_SVC \<and> i \<in> conn \<and> i \<notin> contained_ids vpc
                    then Some BottomNetwork
                    else if service_name v \<in> set NW_SVC \<and> i \<in> conn \<and> i \<notin> contained_ids vpc
                    then Some SideNetwork else None)"
    by (simp add: sh_def shared_area_of_def lv iv)
  have sh_not: "sh \<noteq> Some ZoneCluster" "sh \<noteq> Some SubnetCluster"
    by (simp_all add: sh_eq)
  have ne_not: "ne \<noteq> Some AboveNetwork" "ne \<noteq> Some TopNetwork" "ne \<noteq> Some BottomNetwork"
    "ne \<noteq> Some SideNetwork"
    by (simp_all add: ne_eq)
  have ne_zone: "ne = Some ZoneCluster \<longleftrightarrow> i \<in> single_az vpc \<and> (l < 12 \<or> 14 < l)"
    by (simp add: ne_eq)
  have ne_sub: "ne = Some SubnetCluster \<longleftrightarrow> i \<in> conn \<and> i \<in> single_subnet vpc"
    using disj by (auto simp: ne_eq)
  have counts: "count_list (area_nodes ctx a) nv = (if sh = Some a \<or> ne = Some a then 1 else 0)" for a
  proof (cases a)
    case AboveNetwork
    with c1 ne_not(1) show ?thesis by simp
  next
    case TopNetwork
    with c2 ne_not(2) show ?thesis by simp
  next
    case BottomNetwork
    with c3 ne_not(3) show ?thesis by simp
  next
    case SideNetwork
    with c4 ne_not(4) show ?thesis by simp
  next
    case ZoneCluster
    with c5 sh_not(1) ne_zone show ?thesis by simp
  next
    case SubnetCluster
    with c6 sh_not(2) ne_sub show ?thesis by simp
  qed
  have once: "sh = None \<or> ne = None" if "2 \<le> l"
  proof (cases "i \<in> contained_ids vpc")
    case True
    with that show ?thesis by (simp add: sh_eq)
  next
    case False
    then have "i \<notin> single_az vpc" "i \<notin> single_subnet vpc"
      by (simp_all add: contained_ids_def contained_of_def single_az_def single_subnet_def)
    then show ?thesis by (simp add: ne_eq)
  qed
  from counts once show ?thesis
    unfolding sh_def ne_def by blast
qed

theorem layout_placement_witness:
  "count_list (area_nodes (projr (fst (to_graphviz ex_layout_vpc))) ZoneCluster)
     (projr (node ex_db)) = 1 \<and>
   count_list (area_nodes (projr (fst (to_graphviz ex_layout_vpc))) SubnetCluster)
     (projr (node ex_db)) = 0 \<and>
   count_list (area_nodes (projr (fst (to_graphviz ex_layout_vpc))) BottomNetwork)
     (projr (node ex_db)) = 0 \<and>
   count_list (area_nodes (projr (fst (to_graphviz ex_layout_vpc))) SideNetwork)
     (projr (node ex_sg)) = 1 \<and>
   count_list (area_nodes (projr (fst (to_graphviz ex_layout_vpc))) SubnetCluster)
     (projr (node ex_sg)) = 0"
proof -
  have ok: "\<not> isl (fst (to_graphviz ex_layout_vpc))"
    by code_simp
  have run: "to_graphviz ex_layout_vpc =
      (Inr (projr (fst (to_graphviz ex_layout_vpc))), snd (to_graphviz ex_layout_vpc))"
    using ok by (cases "to_graphviz ex_layout_vpc") (auto simp: isl_def)
  have "\<not> isl (connected_ids ex_layout_vpc)"
    by code_simp
  then have conn: "connected_ids ex_layout_vpc = Inr (projr (connected_ids ex_layout_vpc))"
    by (cases "connected_ids ex_layout_vpc") (auto simp: isl_def)
  have gids: "distinct (map (\<lambda>kv. gv_node_id (snd kv)) (services ex_layout_vpc))"
    by code_simp
  have stored: "\<forall>kv \<in> set (services ex_layout_vpc). v_id (snd kv) = Inr (fst kv)"
    by code_simp
  have mem: "(''db-1'', ex_db) \<in> set (services ex_layout_vpc)"
    "(''sg-1'', ex_sg) \<in> set (services ex_layout_vpc)"
    by (simp_all add: ex_layout_vpc_def)
  have nodes: "node ex_db = Inr (projr (node ex_db))" "node ex_sg = Inr (projr (node ex_sg))"
    by (simp_all add: node_def Let_def ex_db_def ex_sg_def v_id_ex_service)
  have levels: "level (service_name ex_db) = Some 15" "level (service_name ex_sg) = Some 17"
    by (simp_all add: ex_db_def ex_sg_def ex_service_def level_def LEVELS_def)
  have db: "shared_area_of (projr (connected_ids ex_layout_vpc)) (contained_ids ex_layout_vpc) ex_db
      = None"
    "nested_area_of (projr (connected_ids ex_layout_vpc)) (single_az ex_layout_vpc)
      (single_subnet ex_layout_vpc) ex_db = Some ZoneCluster"
    by code_simp+
  have sg: "shared_area_of (projr (connected_ids ex_layout_vpc)) (contained_ids ex_layout_vpc) ex_sg
      = Some SideNetwork"
    "nested_area_of (projr (connected_ids ex_layout_vpc)) (single_az ex_layout_vpc)
      (single_subnet ex_layout_vpc) ex_sg = None"
    by code_simp+
  show ?thesis
    using layout_placement [OF run conn gids stored mem(1) nodes(1) levels(1)]
      layout_placement [OF run conn gids stored mem(2) nodes(2) levels(2)]
    by (simp add: db sg del: area_nodes.simps)
qed

end
